theory Spec2Isabelle
  imports Complex_Main "HOL-Library.List_Lexorder" "HOL-Library.Char_ord" "HOL-Library.Sublist"
begin

section \<open>Errors and floats\<close>

text \<open>
  The exceptions that can leave the modelled functions: \<open>ValueError\<close> from
  \<open>datetime.strptime\<close>, \<open>OverflowError\<close> from adding a \<open>timedelta\<close> beyond the supported
  range, \<open>ProviderError\<close> for anything the market-data provider raises, and \<open>SystemExit\<close>
  for \<open>sys.exit(1)\<close> in the command line.
\<close>

datatype py_error = ValueError | OverflowError | ProviderError | SystemExit

text \<open>
  Floats are only passed through and tested with \<open>isnan\<close>; no float arithmetic is done
  by the program. \<open>Dbl r\<close> stands for a float that is not NaN.
\<close>

datatype pyfloat = NaN | Dbl real

fun isnan :: "pyfloat \<Rightarrow> bool" where
  "isnan NaN = True"
| "isnan (Dbl r) = False"

section \<open>Calendar dates: \<open>datetime\<close> at day resolution\<close>

text \<open>
  A \<open>datetime\<close> is modelled by its calendar day in the proleptic Gregorian calendar.
  The program reads timestamps only through \<open>strftime("%Y-%m-%d")\<close> and does arithmetic
  in whole days.
\<close>

record pydatetime =
  year :: nat
  month :: nat
  day :: nat

definition is_leap :: "nat \<Rightarrow> bool" where
  "is_leap y = (y mod 4 = 0 \<and> (y mod 100 \<noteq> 0 \<or> y mod 400 = 0))"

definition days_in_month :: "nat \<Rightarrow> nat \<Rightarrow> nat" where
  "days_in_month y m =
     (if m = 2 \<and> is_leap y then 29
      else [0, 31, 28, 31, 30, 31, 30, 31, 31, 30, 31, 30, 31] ! m)"

definition days_before_year :: "nat \<Rightarrow> int" where
  "days_before_year y =
     (let p = int y - 1 in p * 365 + p div 4 - p div 100 + p div 400)"

definition days_before_month :: "nat \<Rightarrow> nat \<Rightarrow> int" where
  "days_before_month y m =
     int ([0, 0, 31, 59, 90, 120, 151, 181, 212, 243, 273, 304, 334] ! m)
       + (if m > 2 \<and> is_leap y then 1 else 0)"

definition toordinal :: "pydatetime \<Rightarrow> int" where
  "toordinal d = days_before_year (year d) + days_before_month (year d) (month d) + int (day d)"

definition valid_date :: "pydatetime \<Rightarrow> bool" where
  "valid_date d \<longleftrightarrow>
     1 \<le> year d \<and> year d \<le> 9999 \<and> 1 \<le> month d \<and> month d \<le> 12 \<and>
     1 \<le> day d \<and> day d \<le> days_in_month (year d) (month d)"

text \<open>The order of calendar dates.\<close>

definition date_less :: "pydatetime \<Rightarrow> pydatetime \<Rightarrow> bool" where
  "date_less a b \<longleftrightarrow>
     year a < year b \<or>
     year a = year b \<and> (month a < month b \<or> month a = month b \<and> day a < day b)"

text \<open>\<open>(a - b).days\<close> for two datetimes.\<close>

definition days_between :: "pydatetime \<Rightarrow> pydatetime \<Rightarrow> int" where
  "days_between a b = toordinal a - toordinal b"

text \<open>The calendar day after and the calendar day before a date.\<close>

definition next_day :: "pydatetime \<Rightarrow> pydatetime" where
  "next_day d =
     (if day d < days_in_month (year d) (month d) then d\<lparr>day := day d + 1\<rparr>
      else if month d < 12 then d\<lparr>month := month d + 1, day := 1\<rparr>
      else d\<lparr>year := year d + 1, month := 1, day := 1\<rparr>)"

definition prev_day :: "pydatetime \<Rightarrow> pydatetime" where
  "prev_day d =
     (if 1 < day d then d\<lparr>day := day d - 1\<rparr>
      else if 1 < month d then
        d\<lparr>month := month d - 1, day := days_in_month (year d) (month d - 1)\<rparr>
      else d\<lparr>year := year d - 1, month := 12, day := 31\<rparr>)"

text \<open>
  \<open>d + timedelta(days=1)\<close> and \<open>d - timedelta(days=1)\<close>: a result outside
  0001-01-01 .. 9999-12-31 raises \<open>OverflowError\<close>.
\<close>

definition plus_one_day :: "pydatetime \<Rightarrow> py_error + pydatetime" where
  "plus_one_day d =
     (if year d = 9999 \<and> month d = 12 \<and> day d = 31 then Inl OverflowError
      else Inr (next_day d))"

definition minus_one_day :: "pydatetime \<Rightarrow> py_error + pydatetime" where
  "minus_one_day d =
     (if year d = 1 \<and> month d = 1 \<and> day d = 1 then Inl OverflowError
      else Inr (prev_day d))"

subsection \<open>\<open>strftime("%Y-%m-%d")\<close>\<close>

definition digit_char :: "nat \<Rightarrow> char" where
  "digit_char n = char_of (48 + n)"

definition pad2 :: "nat \<Rightarrow> string" where
  "pad2 n = [digit_char (n div 10 mod 10), digit_char (n mod 10)]"

definition pad4 :: "nat \<Rightarrow> string" where
  "pad4 n = pad2 (n div 100) @ pad2 (n mod 100)"

definition strftime :: "pydatetime \<Rightarrow> string" where
  "strftime d = pad4 (year d) @ ''-'' @ pad2 (month d) @ ''-'' @ pad2 (day d)"

subsection \<open>\<open>datetime.strptime(s, "%Y-%m-%d")\<close>\<close>

text \<open>
  The format is matched as the regular expression
  \<^verbatim>\<open>(\d\d\d\d)-(1[0-2]|0[1-9]|[1-9])-(3[0-1]|[1-2]\d|0[1-9]|[1-9]| [1-9])\<close>
  from the start of the string; text left over after the match, a year 0 and a day
  that the month does not have raise \<open>ValueError\<close>. Digits are the ASCII digits.
\<close>

definition is_digit :: "char \<Rightarrow> bool" where
  "is_digit c \<longleftrightarrow> 48 \<le> (of_char c :: nat) \<and> (of_char c :: nat) \<le> 57"

definition digit_val :: "char \<Rightarrow> nat" where
  "digit_val c = of_char c - 48"

definition is_digit_in :: "nat \<Rightarrow> nat \<Rightarrow> char \<Rightarrow> bool" where
  "is_digit_in lo hi c \<longleftrightarrow> is_digit c \<and> lo \<le> digit_val c \<and> digit_val c \<le> hi"

fun parse_year :: "string \<Rightarrow> (nat \<times> string) option" where
  "parse_year (a # b # c # d # rest) =
     (if is_digit a \<and> is_digit b \<and> is_digit c \<and> is_digit d
      then Some (1000 * digit_val a + 100 * digit_val b + 10 * digit_val c + digit_val d, rest)
      else None)"
| "parse_year _ = None"

text \<open>The month group followed by the literal \<open>-\<close>.\<close>

fun parse_month :: "string \<Rightarrow> (nat \<times> string) option" where
  "parse_month (a # b # c # rest) =
     (if a = CHR ''1'' \<and> is_digit_in 0 2 b \<and> c = CHR ''-'' then Some (10 + digit_val b, rest)
      else if a = CHR ''0'' \<and> is_digit_in 1 9 b \<and> c = CHR ''-'' then Some (digit_val b, rest)
      else if is_digit_in 1 9 a \<and> b = CHR ''-'' then Some (digit_val a, c # rest)
      else None)"
| "parse_month [a, b] =
     (if is_digit_in 1 9 a \<and> b = CHR ''-'' then Some (digit_val a, []) else None)"
| "parse_month _ = None"

text \<open>The day group: the first alternative that matches, and what is left after it.\<close>

fun parse_day :: "string \<Rightarrow> (nat \<times> string) option" where
  "parse_day (a # b # rest) =
     (if a = CHR ''3'' \<and> is_digit_in 0 1 b then Some (30 + digit_val b, rest)
      else if is_digit_in 1 2 a \<and> is_digit b then Some (10 * digit_val a + digit_val b, rest)
      else if a = CHR ''0'' \<and> is_digit_in 1 9 b then Some (digit_val b, rest)
      else if is_digit_in 1 9 a then Some (digit_val a, b # rest)
      else if a = CHR '' '' \<and> is_digit_in 1 9 b then Some (digit_val b, rest)
      else None)"
| "parse_day [a] = (if is_digit_in 1 9 a then Some (digit_val a, []) else None)"
| "parse_day [] = None"

definition strptime :: "string \<Rightarrow> py_error + pydatetime" where
  "strptime s =
     (case parse_year s of
        None \<Rightarrow> Inl ValueError
      | Some (y, s1) \<Rightarrow>
          (case s1 of
             [] \<Rightarrow> Inl ValueError
           | c # s2 \<Rightarrow>
               if c \<noteq> CHR ''-'' then Inl ValueError
               else
                 (case parse_month s2 of
                    None \<Rightarrow> Inl ValueError
                  | Some (m, s3) \<Rightarrow>
                      (case parse_day s3 of
                         None \<Rightarrow> Inl ValueError
                       | Some (dd, s4) \<Rightarrow>
                           if s4 \<noteq> [] then Inl ValueError
                           else
                             (let d = \<lparr>year = y, month = m, day = dd\<rparr>
                              in if valid_date d then Inr d else Inl ValueError)))))"

section \<open>The table store\<close>

text \<open>
  Both tables of \<open>create_database\<close> have the shape
  \<^verbatim>\<open>(id INTEGER PRIMARY KEY AUTOINCREMENT, <key> TEXT NOT NULL, date DATE NOT NULL,
     <metrics>, UNIQUE(<key>, date))\<close>
  where the key column is \<open>symbol\<close> for \<open>stocks\<close> and \<open>nation\<close> for \<open>national_debt\<close>.
  A table is the list of its rows in rowid order together with the AUTOINCREMENT
  counter. The model is the content a connection sees while it runs its statements.
  Text is compared bytewise, which is the order of \<open>string\<close>.
\<close>

record 'v row =
  row_id :: nat
  key :: string
  date :: string
  vals :: 'v

record 'v table =
  rows :: "'v row list"
  seq :: nat

definition empty_table :: "'v table" where
  "empty_table = \<lparr>rows = [], seq = 0\<rparr>"

definition matches :: "string \<Rightarrow> string \<Rightarrow> 'v row \<Rightarrow> bool" where
  "matches k d r \<longleftrightarrow> key r = k \<and> date r = d"

text \<open>
  \<^verbatim>\<open>INSERT OR REPLACE INTO t (<key>, date, <metrics>) VALUES (?, ?, ...)\<close>:
  the rows that violate \<open>UNIQUE(<key>, date)\<close> are deleted, then the new row is
  inserted under a fresh rowid.
\<close>

definition insert_or_replace :: "'v table \<Rightarrow> string \<Rightarrow> string \<Rightarrow> 'v \<Rightarrow> 'v table" where
  "insert_or_replace t k d v =
     \<lparr>rows = filter (\<lambda>r. \<not> matches k d r) (rows t)
               @ [\<lparr>row_id = seq t + 1, key = k, date = d, vals = v\<rparr>],
      seq = seq t + 1\<rparr>"


text \<open>\<^verbatim>\<open>SELECT MAX(date) FROM t WHERE <key> = ?\<close>; \<open>None\<close> is SQL NULL.\<close>

definition select_max_date :: "'v table \<Rightarrow> string \<Rightarrow> string option" where
  "select_max_date t k =
     (case map date (filter (\<lambda>r. key r = k) (rows t)) of
        [] \<Rightarrow> None
      | d # ds \<Rightarrow> Some (fold max ds d))"

text \<open>\<^verbatim>\<open>SELECT date FROM t WHERE <key> = ? ORDER BY date ASC\<close>\<close>

definition select_dates_asc :: "'v table \<Rightarrow> string \<Rightarrow> string list" where
  "select_dates_asc t k = sort (map date (filter (\<lambda>r. key r = k) (rows t)))"

text \<open>The uniqueness constraint as a predicate on a table.\<close>

definition unique_key_date :: "'v table \<Rightarrow> bool" where
  "unique_key_date t \<longleftrightarrow> distinct (map (\<lambda>r. (key r, date r)) (rows t))"

text \<open>A sequence of upserts, in order.\<close>

fun upserts :: "(string \<times> string \<times> 'v) list \<Rightarrow> 'v table \<Rightarrow> 'v table" where
  "upserts [] t = t"
| "upserts ((k, d, v) # ops) t = upserts ops (insert_or_replace t k d v)"

section \<open>Values fetched from the provider\<close>

text \<open>The dataclasses of \<open>stock_struct.py\<close>. A dict is the list of its items in insertion order.\<close>

record Price =
  p_open :: pyfloat
  p_close :: pyfloat
  p_low :: pyfloat
  p_high :: pyfloat
  p_volume :: int
  p_pe :: pyfloat

record Stock =
  stock_name :: string
  stock_data :: "(pydatetime \<times> Price) list"
  tags :: "string list option"

record NationDebt =
  nation_data :: "(pydatetime \<times> pyfloat) list"

text \<open>\<open>d[k] = v\<close> on a dict.\<close>

fun dict_set :: "('k \<times> 'v) list \<Rightarrow> 'k \<Rightarrow> 'v \<Rightarrow> ('k \<times> 'v) list" where
  "dict_set [] k v = [(k, v)]"
| "dict_set ((k', v') # kvs) k v =
     (if k' = k then (k, v) # kvs else (k', v') # dict_set kvs k v)"

text \<open>
  The market-data provider (yfinance) is outside the program: \<open>history\<close> is
  \<open>yf.Ticker(symbol).history(start=..., end=...)\<close>, the rows of the returned frame in order;
  \<open>trailingPE\<close> is \<open>yf.Ticker(symbol).info.get("trailingPE")\<close>; \<open>now\<close> is
  \<open>datetime.now()\<close>. Either call may raise.
\<close>

record hist_row =
  Open :: pyfloat
  High :: pyfloat
  Low :: pyfloat
  Close :: pyfloat
  Volume :: int

text \<open>
  A value found under a key of \<open>ticker.info\<close>: \<open>None\<close>, a \<open>bool\<close>, an \<open>int\<close>, a \<open>float\<close>,
  a \<open>str\<close>, or an object of any other type.
\<close>

datatype pyval = PyNone | PyBool bool | PyInt int | PyFloat pyfloat | PyStr string | PyOther

record provider =
  history :: "string \<Rightarrow> string \<Rightarrow> string \<Rightarrow> py_error + (pydatetime \<times> hist_row) list"
  trailingPE :: "string \<Rightarrow> py_error + pyval"
  now :: pydatetime

section \<open>Configuration and state\<close>

text \<open>An entry of the \<open>stocks\<close> or \<open>national_debt\<close> list of the TOML file.\<close>

record entry =
  name :: string
  start_date :: string
  end_date :: "string option"

text \<open>The TOML file; a section that is absent is \<open>None\<close>.\<close>

record config =
  cfg_stocks :: "entry list option"
  cfg_national_debt :: "entry list option"

text \<open>The columns of \<open>stocks\<close> besides id, symbol and date; \<open>None\<close> is SQL NULL.\<close>

record stock_vals =
  c_open :: "real option"
  c_close :: "real option"
  c_high :: "real option"
  c_low :: "real option"
  c_volume :: "int option"
  c_pe :: "real option"

text \<open>
  The state the commands work on: the TOML file, the two tables of the database and
  the log of the requests sent to the provider (symbol, start, end). The same record
  serves for what a connection sees between \<open>sqlite3.connect\<close> and \<open>conn.close()\<close>: the
  tables with the rows written through the connection so far.
\<close>

record world =
  toml_file :: config
  stocks :: "stock_vals table"
  national_debt :: "real option table"
  requests :: "(string \<times> string \<times> string) list"

text \<open>
  \<open>conn.close()\<close> on a connection that was never committed. The \<open>sqlite3\<close> module opens a
  transaction before the first INSERT or DELETE and \<open>close\<close> does not commit it, so the
  database file keeps the tables it had at \<open>connect\<close> (\<open>w\<close>); the TOML file and the
  requests already sent are as the connection's code left them (\<open>c\<close>). A connection
  that is dropped because an exception passed \<open>conn.close()\<close> by loses its rows the same
  way.
\<close>

definition close_without_commit :: "world \<Rightarrow> world \<Rightarrow> world" where
  "close_without_commit w c = c\<lparr>stocks := stocks w, national_debt := national_debt w\<rparr>"

text \<open>A float bound to a REAL column: SQLite stores NaN as NULL.\<close>

fun bind_real :: "pyfloat \<Rightarrow> real option" where
  "bind_real NaN = None"
| "bind_real (Dbl r) = Some r"

section \<open>\<open>constants.py\<close> and \<open>get_stock/stock_struct.py\<close>\<close>

definition TREASURY_SYMBOLS :: "string \<rightharpoonup> string" where
  "TREASURY_SYMBOLS =
     [''US'' \<mapsto> ''^TNX'', ''USA'' \<mapsto> ''^TNX'', ''United States'' \<mapsto> ''^TNX'']"

text \<open>
  The P/E snapshot of \<open>capture_stock\<close>: NaN when the provider's value is \<open>None\<close> or is not
  an instance of \<open>int\<close> or \<open>float\<close>, else \<open>float(value)\<close>. A \<open>bool\<close> is an instance of
  \<open>int\<close>. \<open>float\<close> of an \<open>int\<close> rounds to the nearest double, ties to even, and raises
  \<open>OverflowError\<close> when the result would be \<open>2 ^ 1024\<close> or more in magnitude, that is from
  \<open>2 ^ 1024 - 2 ^ 970\<close> on; the rounding of an integer within the range is not modelled.
\<close>

definition float_max_int :: int where
  "float_max_int = 2 ^ 1024 - 2 ^ 970"

fun pe_ratio_of :: "pyval \<Rightarrow> py_error + pyfloat" where
  "pe_ratio_of PyNone = Inr NaN"
| "pe_ratio_of (PyBool b) = Inr (Dbl (if b then 1 else 0))"
| "pe_ratio_of (PyInt i) =
     (if \<bar>i\<bar> < float_max_int then Inr (Dbl (real_of_int i)) else Inl OverflowError)"
| "pe_ratio_of (PyFloat f) = Inr f"
| "pe_ratio_of (PyStr s) = Inr NaN"
| "pe_ratio_of PyOther = Inr NaN"

text \<open>The loop over \<open>hist.iterrows()\<close> that fills \<open>price_data\<close>.\<close>

fun build_price_data ::
  "(pydatetime \<times> hist_row) list \<Rightarrow> pyfloat \<Rightarrow> (pydatetime \<times> Price) list
     \<Rightarrow> (pydatetime \<times> Price) list" where
  "build_price_data [] pe_ratio price_data = price_data"
| "build_price_data ((dt, row) # hist) pe_ratio price_data =
     build_price_data hist pe_ratio
       (dict_set price_data dt
          \<lparr>p_open = Open row, p_close = Close row, p_low = Low row, p_high = High row,
           p_volume = Volume row, p_pe = pe_ratio\<rparr>)"

definition capture_stock ::
  "provider \<Rightarrow> string \<Rightarrow> pydatetime \<Rightarrow> world \<Rightarrow> (py_error + Stock) \<times> world" where
  "capture_stock prov nm start w =
     (let start_str = strftime start;
          end_str = strftime (now prov);
          w1 = w\<lparr>requests := requests w @ [(nm, start_str, end_str)]\<rparr>
      in case history prov nm start_str end_str of
           Inl e \<Rightarrow> (Inl e, w1)
         | Inr hist \<Rightarrow>
             (case trailingPE prov nm of
                Inl e \<Rightarrow> (Inl e, w1)
              | Inr v \<Rightarrow>
                  (case pe_ratio_of v of
                     Inl e \<Rightarrow> (Inl e, w1)
                   | Inr pe_ratio \<Rightarrow>
                       (Inr \<lparr>stock_name = nm,
                             stock_data = build_price_data hist pe_ratio [],
                             tags = None\<rparr>, w1))))"

text \<open>The loop over \<open>hist.iterrows()\<close> that fills \<open>debt_data\<close> with the closing yields.\<close>

fun build_debt_data ::
  "(pydatetime \<times> hist_row) list \<Rightarrow> (pydatetime \<times> pyfloat) list
     \<Rightarrow> (pydatetime \<times> pyfloat) list" where
  "build_debt_data [] debt_data = debt_data"
| "build_debt_data ((dt, row) # hist) debt_data =
     build_debt_data hist (dict_set debt_data dt (Close row))"

definition capture_national_debt ::
  "provider \<Rightarrow> string \<Rightarrow> pydatetime \<Rightarrow> world \<Rightarrow> (py_error + NationDebt) \<times> world" where
  "capture_national_debt prov nation start w =
     (let symbol = (case TREASURY_SYMBOLS nation of Some s \<Rightarrow> s | None \<Rightarrow> ''^TNX'');
          start_str = strftime start;
          end_str = strftime (now prov);
          w1 = w\<lparr>requests := requests w @ [(symbol, start_str, end_str)]\<rparr>
      in case history prov symbol start_str end_str of
           Inl e \<Rightarrow> (Inl e, w1)
         | Inr hist \<Rightarrow> (Inr \<lparr>nation_data = build_debt_data hist []\<rparr>, w1))"

section \<open>\<open>utils.py\<close>\<close>

text \<open>
  Names that start with an underscore in the source are written without it.
  A procedure returns \<open>None\<close> when it returns normally and \<open>Some e\<close> when \<open>e\<close> is raised,
  together with the state it leaves behind.
\<close>

definition stock_vals_of :: "Price \<Rightarrow> stock_vals" where
  "stock_vals_of price =
     \<lparr>c_open = bind_real (p_open price), c_close = bind_real (p_close price),
      c_high = bind_real (p_high price), c_low = bind_real (p_low price),
      c_volume = Some (p_volume price),
      c_pe = (if isnan (p_pe price) then None else bind_real (p_pe price))\<rparr>"

text \<open>The loop \<open>for date, price in stock_data.data.items(): INSERT OR REPLACE ...\<close>\<close>

fun insert_stock_rows ::
  "stock_vals table \<Rightarrow> string \<Rightarrow> (pydatetime \<times> Price) list \<Rightarrow> stock_vals table" where
  "insert_stock_rows t nm [] = t"
| "insert_stock_rows t nm ((dt, price) # items) =
     insert_stock_rows (insert_or_replace t nm (strftime dt) (stock_vals_of price)) nm items"

text \<open>The loop \<open>for date, yield_value in debt_data.data.items(): INSERT OR REPLACE ...\<close>\<close>

fun insert_debt_rows ::
  "real option table \<Rightarrow> string \<Rightarrow> (pydatetime \<times> pyfloat) list \<Rightarrow> real option table" where
  "insert_debt_rows t nm [] = t"
| "insert_debt_rows t nm ((dt, yield_value) # items) =
     insert_debt_rows (insert_or_replace t nm (strftime dt) (bind_real yield_value)) nm items"

definition process_stock_data ::
  "entry \<Rightarrow> (string \<Rightarrow> pydatetime \<Rightarrow> world \<Rightarrow> (py_error + Stock) \<times> world) \<Rightarrow> world
     \<Rightarrow> py_error option \<times> world" where
  "process_stock_data config_entry capture_func w =
     (case strptime (start_date config_entry) of
        Inl e \<Rightarrow> (Some e, w)
      | Inr start \<Rightarrow>
          (case capture_func (name config_entry) start w of
             (Inl e, w1) \<Rightarrow> (Some e, w1)
           | (Inr stock_data', w1) \<Rightarrow>
               (None, w1\<lparr>stocks := insert_stock_rows (stocks w1) (stock_name stock_data')
                                       (stock_data stock_data')\<rparr>)))"

definition process_national_debt_data ::
  "entry \<Rightarrow> (string \<Rightarrow> pydatetime \<Rightarrow> world \<Rightarrow> (py_error + NationDebt) \<times> world) \<Rightarrow> world
     \<Rightarrow> py_error option \<times> world" where
  "process_national_debt_data config_entry capture_func w =
     (case strptime (start_date config_entry) of
        Inl e \<Rightarrow> (Some e, w)
      | Inr start \<Rightarrow>
          (case capture_func (name config_entry) start w of
             (Inl e, w1) \<Rightarrow> (Some e, w1)
           | (Inr debt_data', w1) \<Rightarrow>
               (None, w1\<lparr>national_debt := insert_debt_rows (national_debt w1)
                                              (name config_entry) (nation_data debt_data')\<rparr>)))"

text \<open>
  One pass of a \<open>for\<close> loop of \<open>process_toml_config\<close>: the optional preprocessing, then
  the processing of the entry.
\<close>

definition process_entry ::
  "(entry \<Rightarrow> world \<Rightarrow> (py_error + entry) \<times> world) option
     \<Rightarrow> (entry \<Rightarrow> world \<Rightarrow> py_error option \<times> world) \<Rightarrow> entry \<Rightarrow> world
     \<Rightarrow> py_error option \<times> world" where
  "process_entry preprocess_func process e w =
     (case preprocess_func of
        None \<Rightarrow> process e w
      | Some f \<Rightarrow>
          (case f e w of
             (Inl err, w1) \<Rightarrow> (Some err, w1)
           | (Inr e1, w1) \<Rightarrow> process e1 w1))"

text \<open>A \<open>for\<close> loop over the entries of a section; an exception ends it.\<close>

fun for_entries ::
  "(entry \<Rightarrow> world \<Rightarrow> py_error option \<times> world) \<Rightarrow> entry list \<Rightarrow> world
     \<Rightarrow> py_error option \<times> world" where
  "for_entries body [] w = (None, w)"
| "for_entries body (e # es) w =
     (case body e w of
        (Some err, w1) \<Rightarrow> (Some err, w1)
      | (None, w1) \<Rightarrow> for_entries body es w1)"

text \<open>\<open>if 'section' in config: for entry in config['section']: ...\<close>\<close>

definition for_section ::
  "(entry \<Rightarrow> world \<Rightarrow> py_error option \<times> world) \<Rightarrow> entry list option \<Rightarrow> world
     \<Rightarrow> py_error option \<times> world" where
  "for_section body sect w =
     (case sect of None \<Rightarrow> (None, w) | Some es \<Rightarrow> for_entries body es w)"

definition process_toml_config ::
  "(string \<Rightarrow> pydatetime \<Rightarrow> world \<Rightarrow> (py_error + Stock) \<times> world)
     \<Rightarrow> (string \<Rightarrow> pydatetime \<Rightarrow> world \<Rightarrow> (py_error + NationDebt) \<times> world)
     \<Rightarrow> (entry \<Rightarrow> world \<Rightarrow> (py_error + entry) \<times> world) option
     \<Rightarrow> (entry \<Rightarrow> world \<Rightarrow> (py_error + entry) \<times> world) option
     \<Rightarrow> world \<Rightarrow> py_error option \<times> world" where
  "process_toml_config stock_capture_func debt_capture_func
       stock_preprocess_func debt_preprocess_func w =
     (let config = toml_file w
      in case for_section
                (process_entry stock_preprocess_func
                   (\<lambda>e. process_stock_data e stock_capture_func))
                (cfg_stocks config) w of
           (Some err, w1) \<Rightarrow> (Some err, w1)
         | (None, w1) \<Rightarrow>
             for_section
               (process_entry debt_preprocess_func
                  (\<lambda>e. process_national_debt_data e debt_capture_func))
               (cfg_national_debt config) w1)"

section \<open>\<open>database/database.py\<close>\<close>

text \<open>
  \<open>capture_data\<close> connects, calls \<open>process_toml_config\<close> and closes the connection; there
  is no \<open>conn.commit()\<close>.
\<close>

definition capture_data :: "provider \<Rightarrow> world \<Rightarrow> py_error option \<times> world" where
  "capture_data prov w =
     (case process_toml_config (capture_stock prov) (capture_national_debt prov) None None w of
        (res, c) \<Rightarrow> (res, close_without_commit w c))"

section \<open>\<open>get_stock/update.py\<close>\<close>

subsection \<open>Preprocessing for the destructive refresh\<close>



subsection \<open>Gap detection\<close>

text \<open>\<open>[datetime.strptime(row[0], "%Y-%m-%d") for row in rows]\<close>\<close>

fun parse_dates :: "string list \<Rightarrow> py_error + pydatetime list" where
  "parse_dates [] = Inr []"
| "parse_dates (s # ss) =
     (case strptime s of
        Inl e \<Rightarrow> Inl e
      | Inr d \<Rightarrow> (case parse_dates ss of Inl e \<Rightarrow> Inl e | Inr ds \<Rightarrow> Inr (d # ds)))"

text \<open>The loop \<open>for i in range(len(dates) - 1)\<close> of \<open>_get_missing_date_ranges_stock\<close>.\<close>

function stock_gap_loop ::
  "pydatetime list \<Rightarrow> nat \<Rightarrow> (string \<times> string) list \<Rightarrow> py_error + (string \<times> string) list"
where
  "stock_gap_loop dates i missing_ranges =
     (if i + 1 < length dates then
        (let current_date = dates ! i;
             next_date = dates ! (i + 1)
         in if days_between next_date current_date > 1 then
              (case plus_one_day current_date of
                 Inl e \<Rightarrow> Inl e
               | Inr start_missing \<Rightarrow>
                   (case minus_one_day next_date of
                      Inl e \<Rightarrow> Inl e
                    | Inr end_missing \<Rightarrow>
                        stock_gap_loop dates (i + 1)
                          (missing_ranges @ [(strftime start_missing, strftime end_missing)])))
            else stock_gap_loop dates (i + 1) missing_ranges)
      else Inr missing_ranges)"
  by pat_completeness auto
termination
  by (relation "measure (\<lambda>(dates, i, missing_ranges). length dates - i)") auto

declare stock_gap_loop.simps [simp del]

definition get_missing_date_ranges_stock ::
  "string \<Rightarrow> world \<Rightarrow> py_error + (string \<times> string) list" where
  "get_missing_date_ranges_stock symbol w =
     (let rows' = select_dates_asc (stocks w) symbol
      in if rows' = [] then Inr []
         else (case parse_dates rows' of
                 Inl e \<Rightarrow> Inl e
               | Inr dates \<Rightarrow> stock_gap_loop dates 0 []))"

text \<open>The loop of \<open>_get_missing_date_ranges_debt\<close>.\<close>

function debt_gap_loop ::
  "pydatetime list \<Rightarrow> nat \<Rightarrow> (string \<times> string) list \<Rightarrow> py_error + (string \<times> string) list"
where
  "debt_gap_loop dates i missing_ranges =
     (if i + 1 < length dates then
        (let current_date = dates ! i;
             next_date = dates ! (i + 1)
         in if days_between next_date current_date > 1 then
              (case plus_one_day current_date of
                 Inl e \<Rightarrow> Inl e
               | Inr start_missing \<Rightarrow>
                   (case minus_one_day next_date of
                      Inl e \<Rightarrow> Inl e
                    | Inr end_missing \<Rightarrow>
                        debt_gap_loop dates (i + 1)
                          (missing_ranges @ [(strftime start_missing, strftime end_missing)])))
            else debt_gap_loop dates (i + 1) missing_ranges)
      else Inr missing_ranges)"
  by pat_completeness auto
termination
  by (relation "measure (\<lambda>(dates, i, missing_ranges). length dates - i)") auto

declare debt_gap_loop.simps [simp del]

definition get_missing_date_ranges_debt ::
  "string \<Rightarrow> world \<Rightarrow> py_error + (string \<times> string) list" where
  "get_missing_date_ranges_debt nation w =
     (let rows' = select_dates_asc (national_debt w) nation
      in if rows' = [] then Inr []
         else (case parse_dates rows' of
                 Inl e \<Rightarrow> Inl e
               | Inr dates \<Rightarrow> debt_gap_loop dates 0 []))"

subsection \<open>Incremental append\<close>

text \<open>
  The body of the loop over \<open>config['stocks']\<close> in \<open>update_missing_data\<close>.
  \<open>if latest_date_str:\<close> is false for \<open>None\<close> and for the empty string, and the
  statement has no \<open>else\<close>.
\<close>

definition update_missing_stock :: "provider \<Rightarrow> entry \<Rightarrow> world \<Rightarrow> py_error option \<times> world" where
  "update_missing_stock prov stock_entry w =
     (let nm = name stock_entry
      in case select_max_date (stocks w) nm of
           None \<Rightarrow> (None, w)
         | Some latest_date_str \<Rightarrow>
             if latest_date_str = [] then (None, w)
             else
               (case strptime latest_date_str of
                  Inl e \<Rightarrow> (Some e, w)
                | Inr latest_date \<Rightarrow>
                    (case plus_one_day latest_date of
                       Inl e \<Rightarrow> (Some e, w)
                     | Inr start \<Rightarrow>
                         (case capture_stock prov nm start w of
                            (Inl e, w1) \<Rightarrow> (Some e, w1)
                          | (Inr stock_data', w1) \<Rightarrow>
                              (None,
                               w1\<lparr>stocks := insert_stock_rows (stocks w1)
                                     (stock_name stock_data') (stock_data stock_data')\<rparr>)))))"

text \<open>The body of the loop over \<open>config['national_debt']\<close> in \<open>update_missing_data\<close>.\<close>

definition update_missing_debt :: "provider \<Rightarrow> entry \<Rightarrow> world \<Rightarrow> py_error option \<times> world" where
  "update_missing_debt prov debt_entry w =
     (let nm = name debt_entry
      in case select_max_date (national_debt w) nm of
           None \<Rightarrow> (None, w)
         | Some latest_date_str \<Rightarrow>
             if latest_date_str = [] then (None, w)
             else
               (case strptime latest_date_str of
                  Inl e \<Rightarrow> (Some e, w)
                | Inr latest_date \<Rightarrow>
                    (case plus_one_day latest_date of
                       Inl e \<Rightarrow> (Some e, w)
                     | Inr start \<Rightarrow>
                         (case capture_national_debt prov nm start w of
                            (Inl e, w1) \<Rightarrow> (Some e, w1)
                          | (Inr debt_data', w1) \<Rightarrow>
                              (None,
                               w1\<lparr>national_debt := insert_debt_rows (national_debt w1)
                                     nm (nation_data debt_data')\<rparr>)))))"

text \<open>
  The statements of \<open>update_missing_data\<close> between \<open>sqlite3.connect\<close> and \<open>conn.close()\<close>:
  the two loops, working on what the connection sees.
\<close>

definition update_missing_data_conn :: "provider \<Rightarrow> world \<Rightarrow> py_error option \<times> world" where
  "update_missing_data_conn prov w =
     (let config = toml_file w
      in case for_section (update_missing_stock prov) (cfg_stocks config) w of
           (Some err, w1) \<Rightarrow> (Some err, w1)
         | (None, w1) \<Rightarrow>
             for_section (update_missing_debt prov) (cfg_national_debt config) w1)"

text \<open>
  \<open>update_missing_data\<close> as a whole: connect, run the loops, close. Nothing in the
  function commits.
\<close>

definition update_missing_data :: "provider \<Rightarrow> world \<Rightarrow> py_error option \<times> world" where
  "update_missing_data prov w =
     (case update_missing_data_conn prov w of
        (res, c) \<Rightarrow> (res, close_without_commit w c))"

subsection \<open>Destructive refresh\<close>





section \<open>\<open>cli/add.py\<close>\<close>

text \<open>\<open>str.upper()\<close> on ASCII text; other bytes are left as they are.\<close>

definition upper_char :: "char \<Rightarrow> char" where
  "upper_char c =
     (let n = (of_char c :: nat) in if 97 \<le> n \<and> n \<le> 122 then char_of (n - 32) else c)"

definition upper :: "string \<Rightarrow> string" where
  "upper s = map upper_char s"

text \<open>
  The loop over \<open>toml_config['stocks']\<close> that looks for the stock: the first entry whose
  name matches gets the new dates and the loop breaks. The result is \<open>stock_exists\<close> and
  the list after the loop.
\<close>

fun update_existing ::
  "string \<Rightarrow> string \<Rightarrow> string \<Rightarrow> entry list \<Rightarrow> bool \<times> entry list" where
  "update_existing stock sd ed [] = (False, [])"
| "update_existing stock sd ed (stock_entry # es) =
     (if upper (name stock_entry) = upper stock
      then (True, stock_entry\<lparr>start_date := sd, end_date := Some ed\<rparr> # es)
      else (case update_existing stock sd ed es of
              (stock_exists, es') \<Rightarrow> (stock_exists, stock_entry # es')))"

text \<open>What \<open>add_command\<close> does to the loaded TOML configuration before saving it.\<close>

definition add_stock_entry :: "string \<Rightarrow> string \<Rightarrow> string \<Rightarrow> config \<Rightarrow> config" where
  "add_stock_entry stock sd ed toml_config =
     (let entries = (case cfg_stocks toml_config of None \<Rightarrow> [] | Some es \<Rightarrow> es)
      in case update_existing stock sd ed entries of
           (stock_exists, es) \<Rightarrow>
             toml_config\<lparr>cfg_stocks :=
               Some (if \<not> stock_exists
                     then es @ [\<lparr>name = upper stock, start_date = sd, end_date = Some ed\<rparr>]
                     else es)\<rparr>)"

text \<open>The stock entries of a configuration; none when the section is absent.\<close>

definition tracked_stocks :: "config \<Rightarrow> entry list" where
  "tracked_stocks c = (case cfg_stocks c of None \<Rightarrow> [] | Some es \<Rightarrow> es)"

text \<open>
  The settings file \<open>config/config.toml\<close> with the two paths; \<open>None\<close> for the whole
  record is a file that does not exist.
\<close>

record paths =
  toml_path :: "string option"
  db_path :: "string option"

definition unset :: "string option \<Rightarrow> bool" where
  "unset p \<longleftrightarrow> p = None \<or> p = Some []"

definition add_command ::
  "provider \<Rightarrow> paths option \<Rightarrow> string \<Rightarrow> string \<Rightarrow> world \<Rightarrow> py_error option \<times> world" where
  "add_command prov settings stock sd w =
     (case settings of
        None \<Rightarrow> (Some SystemExit, w)
      | Some ps \<Rightarrow>
          if unset (toml_path ps) then (Some SystemExit, w)
          else if unset (db_path ps) then (Some SystemExit, w)
          else
            (case strptime sd of
               Inl e \<Rightarrow> (Some SystemExit, w)
             | Inr start \<Rightarrow>
                 (let ed = strftime (now prov);
                      w1 = w\<lparr>toml_file := add_stock_entry stock sd ed (toml_file w)\<rparr>
                  in case capture_data prov w1 of
                       (Some e, w2) \<Rightarrow> (Some SystemExit, w2)
                     | (None, w2) \<Rightarrow> (None, w2))))"

section \<open>Assumptions about stored dates and about the provider\<close>

text \<open>
  A stored date is canonical when it is the text that \<open>strftime("%Y-%m-%d")\<close> writes for
  the date it parses to. Every date the program writes is of this form.
\<close>

definition canonical :: "string \<Rightarrow> bool" where
  "canonical s = (case strptime s of Inl e \<Rightarrow> False | Inr d \<Rightarrow> strftime d = s)"

definition canonical_dates :: "'v table \<Rightarrow> bool" where
  "canonical_dates t \<longleftrightarrow> (\<forall>r \<in> set (rows t). canonical (date r))"

text \<open>
  The provider's contract: a series that it returns for a request holds only bars dated
  on or after the requested start, and their timestamps are dates of the calendar.
\<close>

definition respects_start :: "provider \<Rightarrow> bool" where
  "respects_start prov \<longleftrightarrow>
     (\<forall>symbol start_str end_str bars. history prov symbol start_str end_str = Inr bars \<longrightarrow>
        (\<forall>(dt, row) \<in> set bars. valid_date dt \<and> start_str \<le> strftime dt))"

text \<open>The nation entries of a configuration; none when the section is absent.\<close>

definition tracked_nations :: "config \<Rightarrow> entry list" where
  "tracked_nations c = (case cfg_national_debt c of None \<Rightarrow> [] | Some es \<Rightarrow> es)"

text \<open>The symbol under which \<open>capture_national_debt\<close> sends its request.\<close>

definition proxy_symbol :: "string \<Rightarrow> string" where
  "proxy_symbol nation = (case TREASURY_SYMBOLS nation of Some s \<Rightarrow> s | None \<Rightarrow> ''^TNX'')"

text \<open>
  The provider has nothing beyond what the store holds: whatever series it returns for
  a tracked key, each of its bars is dated as a row that the store has for that key.
\<close>

definition holds_all_data :: "provider \<Rightarrow> world \<Rightarrow> bool" where
  "holds_all_data prov w \<longleftrightarrow>
     (\<forall>e \<in> set (tracked_stocks (toml_file w)). \<forall>start_str end_str bars.
        history prov (name e) start_str end_str = Inr bars \<longrightarrow>
        (\<forall>(dt, row) \<in> set bars.
           \<exists>r \<in> set (rows (stocks w)). key r = name e \<and> date r = strftime dt)) \<and>
     (\<forall>e \<in> set (tracked_nations (toml_file w)). \<forall>start_str end_str bars.
        history prov (proxy_symbol (name e)) start_str end_str = Inr bars \<longrightarrow>
        (\<forall>(dt, row) \<in> set bars.
           \<exists>r \<in> set (rows (national_debt w)). key r = name e \<and> date r = strftime dt))"


text \<open>Two states with the same tables and the same configuration.\<close>

definition same_tables :: "world \<Rightarrow> world \<Rightarrow> bool" where
  "same_tables w w' \<longleftrightarrow>
     stocks w' = stocks w \<and> national_debt w' = national_debt w \<and> toml_file w' = toml_file w"

text \<open>
  A table that only gained rows, all of them for one key and with canonical dates; a run
  that left every earlier row, request and the configuration in place; a store whose
  dates are all canonical.
\<close>

definition appended :: "string \<Rightarrow> 'v table \<Rightarrow> 'v table \<Rightarrow> bool" where
  "appended nm t t' \<longleftrightarrow>
     (\<exists>ext. rows t' = rows t @ ext \<and> (\<forall>r \<in> set ext. key r = nm \<and> canonical (date r)))"

definition run_frame :: "world \<Rightarrow> world \<Rightarrow> bool" where
  "run_frame w w' \<longleftrightarrow>
     prefix (rows (stocks w)) (rows (stocks w')) \<and>
     prefix (rows (national_debt w)) (rows (national_debt w')) \<and>
     toml_file w' = toml_file w \<and> prefix (requests w) (requests w')"

definition canonical_store :: "world \<Rightarrow> bool" where
  "canonical_store w \<longleftrightarrow> canonical_dates (stocks w) \<and> canonical_dates (national_debt w)"


section \<open>Example states\<close>

text \<open>
  A store with three rows for AAPL, written out of order, and one for MSFT; the same
  dates for the nation US.
\<close>

definition example_stocks :: "stock_vals table" where
  "example_stocks =
     upserts
       [(''AAPL'', ''2023-01-04'', \<lparr>c_open = Some 153, c_close = Some 151, c_high = Some 154,
            c_low = Some 150, c_volume = Some 900000, c_pe = Some 25.8\<rparr>),
        (''AAPL'', ''2023-01-01'', \<lparr>c_open = Some 150, c_close = Some 152, c_high = Some 153,
            c_low = Some 149, c_volume = Some 1000000, c_pe = Some 25.5\<rparr>),
        (''MSFT'', ''2023-01-03'', \<lparr>c_open = Some 240, c_close = Some 241, c_high = Some 242,
            c_low = Some 239, c_volume = Some 500000, c_pe = None\<rparr>),
        (''AAPL'', ''2023-01-02'', \<lparr>c_open = Some 152, c_close = Some 154, c_high = Some 155,
            c_low = Some 152, c_volume = Some 1200000, c_pe = Some 26\<rparr>)]
       empty_table"

definition example_debt :: "real option table" where
  "example_debt =
     upserts [(''US'', ''2023-01-01'', Some 3.5), (''US'', ''2023-01-02'', Some 3.6),
              (''US'', ''2023-01-04'', Some 3.4)] empty_table"

definition example_config :: config where
  "example_config =
     \<lparr>cfg_stocks = Some [\<lparr>name = ''AAPL'', start_date = ''2023-01-01'', end_date = None\<rparr>],
      cfg_national_debt = Some [\<lparr>name = ''US'', start_date = ''2023-01-01'', end_date = None\<rparr>]\<rparr>"

definition example_world :: world where
  "example_world =
     \<lparr>toml_file = example_config, stocks = example_stocks, national_debt = example_debt,
      requests = []\<rparr>"

text \<open>
  Providers: one that has no data at all, one that has two bars for MSFT and no
  trailing P/E, one that has two new bars for AAPL after 2023-01-04, and one that has
  the bar of 2023-01-04 again, revised, and one bar after it.
\<close>

definition example_now :: pydatetime where
  "example_now = \<lparr>year = 2023, month = 1, day = 10\<rparr>"

definition quiet_provider :: provider where
  "quiet_provider =
     \<lparr>history = (\<lambda>symbol start_str end_str. Inr []),
      trailingPE = (\<lambda>symbol. Inr PyNone),
      now = example_now\<rparr>"

definition bar1 :: hist_row where
  "bar1 = \<lparr>Open = Dbl 240, High = Dbl 242, Low = Dbl 239, Close = Dbl 241, Volume = 500000\<rparr>"

definition bar2 :: hist_row where
  "bar2 = \<lparr>Open = Dbl 241, High = Dbl 245, Low = Dbl 240, Close = Dbl 244, Volume = 600000\<rparr>"

definition no_pe_provider :: provider where
  "no_pe_provider =
     \<lparr>history = (\<lambda>symbol start_str end_str.
         if symbol = ''MSFT''
         then Inr [(\<lparr>year = 2023, month = 1, day = 5\<rparr>, bar1),
                   (\<lparr>year = 2023, month = 1, day = 6\<rparr>, bar2)]
         else Inr []),
      trailingPE = (\<lambda>symbol. Inr PyNone),
      now = example_now\<rparr>"

definition append_provider :: provider where
  "append_provider =
     \<lparr>history = (\<lambda>symbol start_str end_str.
         if symbol = ''AAPL'' \<and> start_str = ''2023-01-05''
         then Inr [(\<lparr>year = 2023, month = 1, day = 5\<rparr>, bar1),
                   (\<lparr>year = 2023, month = 1, day = 6\<rparr>, bar2)]
         else Inr []),
      trailingPE = (\<lambda>symbol. Inr (PyFloat (Dbl 26))),
      now = example_now\<rparr>"


text \<open>A provider like \<open>no_pe_provider\<close> whose \<open>trailingPE\<close> is the boolean \<open>True\<close>.\<close>

definition bool_pe_provider :: provider where
  "bool_pe_provider =
     \<lparr>history = (\<lambda>symbol start_str end_str.
         if symbol = ''MSFT''
         then Inr [(\<lparr>year = 2023, month = 1, day = 5\<rparr>, bar1),
                   (\<lparr>year = 2023, month = 1, day = 6\<rparr>, bar2)]
         else Inr []),
      trailingPE = (\<lambda>symbol. Inr (PyBool True)),
      now = example_now\<rparr>"

text \<open>
  A provider that has for AAPL the three bars whose dates the example store holds, and
  returns those on or after the requested start.
\<close>

definition stored_provider :: provider where
  "stored_provider =
     \<lparr>history = (\<lambda>symbol start_str end_str.
         if symbol = ''AAPL''
         then Inr (filter (\<lambda>(dt, row). start_str \<le> strftime dt)
                     [(\<lparr>year = 2023, month = 1, day = 1\<rparr>, bar1),
                      (\<lparr>year = 2023, month = 1, day = 2\<rparr>, bar2),
                      (\<lparr>year = 2023, month = 1, day = 4\<rparr>, bar1)])
         else Inr []),
      trailingPE = (\<lambda>symbol. Inr (PyFloat (Dbl 26))),
      now = example_now\<rparr>"

text \<open>What \<open>append_provider\<close> makes \<open>capture_stock\<close> return for AAPL from 2023-01-05.\<close>

definition aapl_stock :: Stock where
  "aapl_stock =
     \<lparr>stock_name = ''AAPL'',
      stock_data =
        [(\<lparr>year = 2023, month = 1, day = 5\<rparr>,
          \<lparr>p_open = Dbl 240, p_close = Dbl 241, p_low = Dbl 239, p_high = Dbl 242,
           p_volume = 500000, p_pe = Dbl 26\<rparr>),
         (\<lparr>year = 2023, month = 1, day = 6\<rparr>,
          \<lparr>p_open = Dbl 241, p_close = Dbl 244, p_low = Dbl 240, p_high = Dbl 245,
           p_volume = 600000, p_pe = Dbl 26\<rparr>)],
      tags = None\<rparr>"

text \<open>What \<open>no_pe_provider\<close> makes \<open>capture_stock\<close> return for MSFT.\<close>

definition msft_stock :: Stock where
  "msft_stock =
     \<lparr>stock_name = ''MSFT'',
      stock_data =
        [(\<lparr>year = 2023, month = 1, day = 5\<rparr>,
          \<lparr>p_open = Dbl 240, p_close = Dbl 241, p_low = Dbl 239, p_high = Dbl 242,
           p_volume = 500000, p_pe = NaN\<rparr>),
         (\<lparr>year = 2023, month = 1, day = 6\<rparr>,
          \<lparr>p_open = Dbl 241, p_close = Dbl 244, p_low = Dbl 240, p_high = Dbl 245,
           p_volume = 600000, p_pe = NaN\<rparr>)],
      tags = None\<rparr>"

text \<open>The example store after an incremental append with \<open>append_provider\<close>.\<close>

definition world_after_append :: world where
  "world_after_append =
     example_world
       \<lparr>requests := [(''AAPL'', ''2023-01-05'', ''2023-01-10''),
                     (''^TNX'', ''2023-01-05'', ''2023-01-10'')],
        stocks := insert_stock_rows example_stocks ''AAPL''
           (build_price_data
             [(\<lparr>year = 2023, month = 1, day = 5\<rparr>, bar1),
              (\<lparr>year = 2023, month = 1, day = 6\<rparr>, bar2)] (Dbl 26) [])\<rparr>"


text \<open>A store that holds nothing yet for the tracked keys.\<close>

definition empty_world :: world where
  "empty_world =
     \<lparr>toml_file = example_config, stocks = empty_table, national_debt = empty_table,
      requests = []\<rparr>"

section \<open>Properties of the table store\<close>

lemma rows_insert_or_replace:
  "rows (insert_or_replace t k d v) =
     filter (\<lambda>r. \<not> matches k d r) (rows t) @ [\<lparr>row_id = seq t + 1, key = k, date = d, vals = v\<rparr>]"
  by (simp add: insert_or_replace_def)

lemma unique_insert_or_replace:
  assumes "unique_key_date t"
  shows "unique_key_date (insert_or_replace t k d v)"
proof -
  have "distinct (map (\<lambda>r. (key r, date r)) (filter (\<lambda>r. \<not> matches k d r) (rows t)))"
    using assms unfolding unique_key_date_def by (rule distinct_map_filter)
  moreover have "(k, d) \<notin> (\<lambda>r. (key r, date r)) ` set (filter (\<lambda>r. \<not> matches k d r) (rows t))"
    by (auto simp: matches_def)
  ultimately show ?thesis
    by (simp add: unique_key_date_def rows_insert_or_replace)
qed

lemma unique_upserts: "unique_key_date t \<Longrightarrow> unique_key_date (upserts ops t)"
  by (induction ops arbitrary: t) (auto simp: unique_insert_or_replace)

lemma upserts_append: "upserts (xs @ ys) t = upserts ys (upserts xs t)"
  by (induction xs arbitrary: t) auto

lemma select_insert_same:
  "map vals (filter (matches k d) (rows (insert_or_replace t k d v))) = [v]"
  by (simp add: rows_insert_or_replace matches_def)

lemma select_insert_other:
  "\<not> (k' = k \<and> d' = d) \<Longrightarrow>
   filter (matches k d) (rows (insert_or_replace t k' d' v)) = filter (matches k d) (rows t)"
  by (auto simp: rows_insert_or_replace matches_def intro!: filter_cong)

lemma select_upserts_other:
  "\<forall>(k', d', v') \<in> set ops. \<not> (k' = k \<and> d' = d) \<Longrightarrow>
   filter (matches k d) (rows (upserts ops t)) = filter (matches k d) (rows t)"
proof (induction ops arbitrary: t)
  case Nil
  then show ?case by simp
next
  case (Cons op ops)
  obtain k' d' v' where op: "op = (k', d', v')" by (cases op) auto
  from Cons.prems op have ne: "\<not> (k' = k \<and> d' = d)" by auto
  from Cons.prems have rest: "\<forall>(k', d', v') \<in> set ops. \<not> (k' = k \<and> d' = d)" by auto
  show ?case
    using Cons.IH [OF rest] select_insert_other [OF ne] by (simp add: op)
qed

text \<open>
  Claim C2. After any sequence of upserts on a table that satisfies the uniqueness
  constraint (the empty table does), no two rows share a (key, date) pair; and for a
  pair that was upserted, the table holds exactly one row for it, whose values are
  those of the last upsert for that pair, whatever the table held before.
\<close>

theorem upserts_unique_last_wins:
  "(unique_key_date t \<longrightarrow> unique_key_date (upserts ops t)) \<and>
   (ops = pre @ (k, d, v) # post \<and> (\<forall>(k', d', v') \<in> set post. \<not> (k' = k \<and> d' = d)) \<longrightarrow>
      map vals (filter (matches k d) (rows (upserts ops t))) = [v])"
proof (intro conjI impI)
  assume "unique_key_date t"
  then show "unique_key_date (upserts ops t)" by (rule unique_upserts)
next
  assume a: "ops = pre @ (k, d, v) # post \<and> (\<forall>(k', d', v') \<in> set post. \<not> (k' = k \<and> d' = d))"
  then have "filter (matches k d) (rows (upserts ops t)) =
      filter (matches k d) (rows (insert_or_replace (upserts pre t) k d v))"
    using select_upserts_other [of post k d] by (simp add: upserts_append)
  then show "map vals (filter (matches k d) (rows (upserts ops t))) = [v]"
    by (simp add: select_insert_same)
qed

theorem upserts_unique_last_wins_witness:
  "unique_key_date (empty_table :: nat table) \<and>
   unique_key_date (upserts [(''AAPL'', ''2023-01-03'', 1), (''MSFT'', ''2023-01-03'', 2),
                             (''AAPL'', ''2023-01-03'', 3 :: nat)] empty_table) \<and>
   map vals (filter (matches ''AAPL'' ''2023-01-03'')
     (rows (upserts [(''AAPL'', ''2023-01-03'', 1), (''MSFT'', ''2023-01-03'', 2),
                     (''AAPL'', ''2023-01-03'', 3 :: nat)] empty_table))) = [3]"
proof -
  let ?ops = "[(''AAPL'', ''2023-01-03'', 1), (''MSFT'', ''2023-01-03'', 2),
               (''AAPL'', ''2023-01-03'', 3 :: nat)]"
  have u: "unique_key_date (empty_table :: nat table)"
    by (simp add: unique_key_date_def empty_table_def)
  have sp: "?ops = [(''AAPL'', ''2023-01-03'', 1), (''MSFT'', ''2023-01-03'', 2)]
                     @ (''AAPL'', ''2023-01-03'', 3) # [] \<and>
            (\<forall>(k', d', v') \<in> set ([] :: (string \<times> string \<times> nat) list).
               \<not> (k' = ''AAPL'' \<and> d' = ''2023-01-03''))"
    by simp
  from upserts_unique_last_wins [of empty_table ?ops
         "[(''AAPL'', ''2023-01-03'', 1), (''MSFT'', ''2023-01-03'', 2)]"
         "''AAPL''" "''2023-01-03''" 3 "[]"] u sp
  show ?thesis by blast
qed

section \<open>Properties of the calendar\<close>

lemma month_cases:
  assumes "1 \<le> m" "m \<le> 12"
  shows "m = 1 \<or> m = 2 \<or> m = 3 \<or> m = 4 \<or> m = 5 \<or> m = 6 \<or> m = 7 \<or> m = 8 \<or> m = 9 \<or>
         m = 10 \<or> m = 11 \<or> m = (12::nat)"
  using assms by arith

lemma day_of_year_bounds:
  assumes "1 \<le> m" "m \<le> 12" "1 \<le> d" "d \<le> days_in_month y m"
  shows "1 \<le> days_before_month y m + int d \<and>
         days_before_month y m + int d \<le> (if is_leap y then 366 else 365)"
proof -
  from month_cases [OF assms(1,2)] show ?thesis
  proof (elim disjE)
  qed (use assms(3,4) in \<open>simp_all add: days_before_month_def days_in_month_def split: if_splits\<close>)
qed

lemma div_facts:
  fixes p :: int
  shows "4 * (p div 4) \<le> p" "p < 4 * (p div 4) + 4"
        "100 * (p div 100) \<le> p" "p < 100 * (p div 100) + 100"
        "400 * (p div 400) \<le> p" "p < 400 * (p div 400) + 400"
proof -
  have a: "4 * (p div 4) + p mod 4 = p" "0 \<le> p mod 4" "p mod 4 < 4"
    by (simp_all add: mult_div_mod_eq)
  have b: "100 * (p div 100) + p mod 100 = p" "0 \<le> p mod 100" "p mod 100 < 100"
    by (simp_all add: mult_div_mod_eq)
  have c: "400 * (p div 400) + p mod 400 = p" "0 \<le> p mod 400" "p mod 400 < 400"
    by (simp_all add: mult_div_mod_eq)
  show "4 * (p div 4) \<le> p" "p < 4 * (p div 4) + 4" using a by linarith+
  show "100 * (p div 100) \<le> p" "p < 100 * (p div 100) + 100" using b by linarith+
  show "400 * (p div 400) \<le> p" "p < 400 * (p div 400) + 400" using c by linarith+
qed

lemma days_before_year_lower:
  assumes "1 \<le> y"
  shows "0 \<le> days_before_year y"
proof -
  define p where "p = int y - 1"
  define a where "a = p div 4"
  define b where "b = p div 100"
  define c where "c = p div 400"
  have p0: "0 \<le> p" using assms by (simp add: p_def)
  have f: "p < 4 * a + 4" "100 * b \<le> p" "p < 400 * c + 400"
    using div_facts [of p] by (simp_all add: a_def b_def c_def)
  have c0: "0 \<le> c" using p0 by (simp add: c_def pos_imp_zdiv_nonneg_iff)
  have "0 \<le> p * 365 + a - b + c" using p0 f c0 by linarith
  then show ?thesis by (simp add: days_before_year_def Let_def p_def a_def b_def c_def)
qed

lemma days_before_year_upper:
  assumes "y \<le> 9998"
  shows "days_before_year y + 366 \<le> 3652059"
proof -
  define p where "p = int y - 1"
  define a where "a = p div 4"
  define b where "b = p div 100"
  define c where "c = p div 400"
  have p0: "p \<le> 9997" using assms by (simp add: p_def)
  have f: "4 * a \<le> p" "p < 100 * b + 100" "400 * c \<le> p"
    using div_facts [of p] by (simp_all add: a_def b_def c_def)
  have "p * 365 + a - b + c + 366 \<le> 3652059" using p0 f by linarith
  then show ?thesis by (simp add: days_before_year_def Let_def p_def a_def b_def c_def)
qed

lemma days_before_year_9999: "days_before_year 9999 = 3651694"
  by (simp add: days_before_year_def Let_def)

lemma not_leap_9999: "\<not> is_leap 9999"
  by (simp add: is_leap_def)

lemma toordinal_bounds:
  assumes "valid_date d"
  shows "1 \<le> toordinal d \<and> toordinal d \<le> 3652059"
proof -
  from assms have v: "1 \<le> year d" "year d \<le> 9999" "1 \<le> month d" "month d \<le> 12"
    "1 \<le> day d" "day d \<le> days_in_month (year d) (month d)"
    by (auto simp: valid_date_def)
  note a = day_of_year_bounds [OF v(3-6)]
  note b = days_before_year_lower [OF v(1)]
  have lo: "1 \<le> toordinal d" using a b by (simp add: toordinal_def)
  have hi: "toordinal d \<le> 3652059"
  proof (cases "year d = 9999")
    case True
    with a show ?thesis
      by (simp add: toordinal_def days_before_year_9999 not_leap_9999)
  next
    case False
    with v(2) have "year d \<le> 9998" by simp
    from days_before_year_upper [OF this] a show ?thesis
      by (simp add: toordinal_def split: if_splits)
  qed
  from lo hi show ?thesis ..
qed

lemma toordinal_max:
  "year d = 9999 \<Longrightarrow> month d = 12 \<Longrightarrow> day d = 31 \<Longrightarrow> toordinal d = 3652059"
  by (simp add: toordinal_def days_before_year_9999 days_before_month_def not_leap_9999)

lemma toordinal_min:
  "year d = 1 \<Longrightarrow> month d = 1 \<Longrightarrow> day d = 1 \<Longrightarrow> toordinal d = 1"
  by (simp add: toordinal_def days_before_year_def days_before_month_def)

lemma gap_no_overflow:
  assumes "valid_date a" "valid_date b" "days_between b a > 1"
  shows "plus_one_day a = Inr (next_day a)" "minus_one_day b = Inr (prev_day b)"
proof -
  from toordinal_bounds [OF assms(1)] toordinal_bounds [OF assms(2)] assms(3)
  have "toordinal a < 3652059" "1 < toordinal b"
    by (simp_all add: days_between_def)
  then show "plus_one_day a = Inr (next_day a)" "minus_one_day b = Inr (prev_day b)"
    using toordinal_max [of a] toordinal_min [of b]
    by (auto simp: plus_one_day_def minus_one_day_def)
qed

lemma strptime_valid: "strptime s = Inr d \<Longrightarrow> valid_date d"
  by (auto simp: strptime_def Let_def split: option.splits list.splits if_splits prod.splits)

lemma parse_dates_valid: "parse_dates ss = Inr ds \<Longrightarrow> \<forall>d \<in> set ds. valid_date d"
  by (induction ss arbitrary: ds) (auto split: sum.splits dest: strptime_valid)

section \<open>Gap detection\<close>

lemma zip_drop_step:
  assumes "Suc i < length xs"
  shows "zip (drop i xs) (drop (Suc i) xs) =
           (xs ! i, xs ! Suc i) # zip (drop (Suc i) xs) (drop (Suc (Suc i)) xs)"
proof -
  from assms have "i < length xs" by simp
  then have a: "drop i xs = xs ! i # drop (Suc i) xs" by (simp add: Cons_nth_drop_Suc)
  from assms have b: "drop (Suc i) xs = xs ! Suc i # drop (Suc (Suc i)) xs"
    by (simp add: Cons_nth_drop_Suc)
  show ?thesis by (subst a, subst b) simp
qed

lemma stock_gap_loop_eq:
  assumes "\<forall>d \<in> set dates. valid_date d"
  shows "stock_gap_loop dates i acc =
     Inr (acc @ map (\<lambda>(a, b). (strftime (next_day a), strftime (prev_day b)))
                 (filter (\<lambda>(a, b). days_between b a > 1)
                    (zip (drop i dates) (drop (Suc i) dates))))"
  using assms
proof (induction dates i acc rule: stock_gap_loop.induct)
  case (1 dates i acc)
  show ?case
  proof (cases "Suc i < length dates")
    case False
    then have "drop (Suc i) dates = []" by simp
    with False show ?thesis by (subst stock_gap_loop.simps) simp
  next
    case True
    then have t: "i + 1 < length dates" by simp
    note dz = zip_drop_step [OF True]
    have va: "valid_date (dates ! i)" and vb: "valid_date (dates ! Suc i)"
      using "1.prems" True by (auto simp: all_set_conv_all_nth)
    show ?thesis
    proof (cases "days_between (dates ! Suc i) (dates ! i) > 1")
      case gap: True
      note no = gap_no_overflow [OF va vb gap]
      from gap have g: "days_between (dates ! (i + 1)) (dates ! i) > 1" by simp
      have "stock_gap_loop dates i acc =
          stock_gap_loop dates (Suc i)
            (acc @ [(strftime (next_day (dates ! i)), strftime (prev_day (dates ! Suc i)))])"
        using True gap no by (subst stock_gap_loop.simps) (simp add: Let_def)
      moreover have "stock_gap_loop dates (i + 1)
            (acc @ [(strftime (next_day (dates ! i)), strftime (prev_day (dates ! (i + 1))))]) =
         Inr ((acc @ [(strftime (next_day (dates ! i)), strftime (prev_day (dates ! (i + 1))))])
          @ map (\<lambda>(a, b). (strftime (next_day a), strftime (prev_day b)))
                 (filter (\<lambda>(a, b). days_between b a > 1)
                    (zip (drop (i + 1) dates) (drop (Suc (i + 1)) dates))))"
        using no by (intro "1.IH"(1) [OF t refl refl g _ _ "1.prems"]) simp_all
      ultimately show ?thesis using gap by (simp add: dz)
    next
      case nogap: False
      then have g: "\<not> days_between (dates ! (i + 1)) (dates ! i) > 1" by simp
      have "stock_gap_loop dates i acc = stock_gap_loop dates (Suc i) acc"
        using True nogap by (subst stock_gap_loop.simps) (simp add: Let_def)
      moreover have "stock_gap_loop dates (i + 1) acc = Inr (acc
          @ map (\<lambda>(a, b). (strftime (next_day a), strftime (prev_day b)))
                 (filter (\<lambda>(a, b). days_between b a > 1)
                    (zip (drop (i + 1) dates) (drop (Suc (i + 1)) dates))))"
        by (rule "1.IH"(2) [OF t refl refl g "1.prems"])
      ultimately show ?thesis using nogap by (simp add: dz)
    qed
  qed
qed

lemma gap_loops_equal: "debt_gap_loop dates i acc = stock_gap_loop dates i acc"
proof (induction dates i acc rule: stock_gap_loop.induct)
  case (1 dates i acc)
  show ?case
  proof (cases "i + 1 < length dates")
    case False
    then show ?thesis
      by (subst debt_gap_loop.simps, subst stock_gap_loop.simps) simp
  next
    case True
    show ?thesis
    proof (cases "days_between (dates ! (i + 1)) (dates ! i) > 1")
      case nogap: False
      from "1.IH"(2) [OF True refl refl nogap] True nogap show ?thesis
        by (subst debt_gap_loop.simps, subst stock_gap_loop.simps) (simp add: Let_def)
    next
      case gap: True
      show ?thesis
      proof (cases "plus_one_day (dates ! i)")
        case (Inl e)
        with True gap show ?thesis
          by (subst debt_gap_loop.simps, subst stock_gap_loop.simps) (simp add: Let_def)
      next
        case p: (Inr sm)
        show ?thesis
        proof (cases "minus_one_day (dates ! (i + 1))")
          case (Inl e)
          with True gap p show ?thesis
            by (subst debt_gap_loop.simps, subst stock_gap_loop.simps) (simp add: Let_def)
        next
          case m: (Inr em)
          from "1.IH"(1) [OF True refl refl gap p m] True gap p m show ?thesis
            by (subst debt_gap_loop.simps, subst stock_gap_loop.simps) (simp add: Let_def)
        qed
      qed
    qed
  qed
qed

text \<open>
  Claim C3. Gap detection for a stock whose stored dates all parse returns, for the
  stored dates in ascending order, exactly the ranges (day after the earlier date, day
  before the later date) of the consecutive pairs that are more than one day apart, in
  order, and no error.
\<close>

theorem gap_detection_ranges:
  assumes "parse_dates (select_dates_asc (stocks w) symbol) = Inr dates"
  shows "get_missing_date_ranges_stock symbol w =
     Inr (map (\<lambda>(a, b). (strftime (next_day a), strftime (prev_day b)))
            (filter (\<lambda>(a, b). days_between b a > 1) (zip dates (tl dates))))"
proof -
  from parse_dates_valid [OF assms] have v: "\<forall>d \<in> set dates. valid_date d" .
  show ?thesis
  proof (cases "select_dates_asc (stocks w) symbol = []")
    case True
    with assms have "dates = []" by simp
    with True show ?thesis by (simp add: get_missing_date_ranges_stock_def)
  next
    case False
    with assms stock_gap_loop_eq [OF v, of 0 "[]"] show ?thesis
      by (simp add: get_missing_date_ranges_stock_def Let_def drop_Suc)
  qed
qed

lemma example_stock_dates:
  "select_dates_asc (stocks example_world) ''AAPL'' =
     [''2023-01-01'', ''2023-01-02'', ''2023-01-04'']"
  by (simp add: example_world_def example_stocks_def select_dates_asc_def
        insert_or_replace_def empty_table_def matches_def)

lemma example_debt_dates:
  "select_dates_asc (national_debt example_world) ''US'' =
     [''2023-01-01'', ''2023-01-02'', ''2023-01-04'']"
  by (simp add: example_world_def example_debt_def select_dates_asc_def
        insert_or_replace_def empty_table_def matches_def)

lemma example_parse:
  "parse_dates [''2023-01-01'', ''2023-01-02'', ''2023-01-04''] =
     Inr [\<lparr>year = 2023, month = 1, day = 1\<rparr>, \<lparr>year = 2023, month = 1, day = 2\<rparr>,
          \<lparr>year = 2023, month = 1, day = 4\<rparr>]"
  by code_simp

lemma ex_between:
  "(days_between \<lparr>year = 2023, month = 1, day = 2\<rparr> \<lparr>year = 2023, month = 1, day = 1\<rparr> > 1)
     = False"
  "(days_between \<lparr>year = 2023, month = 1, day = 4\<rparr> \<lparr>year = 2023, month = 1, day = 2\<rparr> > 1)
     = True"
  by (simp_all add: days_between_def toordinal_def days_before_year_def days_before_month_def
        is_leap_def Let_def)

lemma ex_next_prev:
  "next_day \<lparr>year = 2023, month = 1, day = 2\<rparr> = \<lparr>year = 2023, month = 1, day = 3\<rparr>"
  "prev_day \<lparr>year = 2023, month = 1, day = 4\<rparr> = \<lparr>year = 2023, month = 1, day = 3\<rparr>"
  by (simp_all add: next_day_def prev_day_def days_in_month_def is_leap_def)

lemma ex_strftime: "strftime \<lparr>year = 2023, month = 1, day = 3\<rparr> = ''2023-01-03''"
  by code_simp

lemma example_gaps:
  "map (\<lambda>(a, b). (strftime (next_day a), strftime (prev_day b)))
     (filter (\<lambda>(a, b). days_between b a > 1)
        (zip [\<lparr>year = 2023, month = 1, day = 1\<rparr>, \<lparr>year = 2023, month = 1, day = 2\<rparr>,
              \<lparr>year = 2023, month = 1, day = 4\<rparr>]
             (tl [\<lparr>year = 2023, month = 1, day = 1\<rparr>, \<lparr>year = 2023, month = 1, day = 2\<rparr>,
                  \<lparr>year = 2023, month = 1, day = 4\<rparr>]))) = [(''2023-01-03'', ''2023-01-03'')]"
  by (simp only: list.sel zip_Cons_Cons zip_Nil zip.simps(1) filter.simps list.map prod.case
        ex_between ex_next_prev ex_strftime if_True if_False)

theorem gap_detection_ranges_witness:
  "parse_dates (select_dates_asc (stocks example_world) ''AAPL'')
     = Inr [\<lparr>year = 2023, month = 1, day = 1\<rparr>, \<lparr>year = 2023, month = 1, day = 2\<rparr>,
            \<lparr>year = 2023, month = 1, day = 4\<rparr>] \<and>
   get_missing_date_ranges_stock ''AAPL'' example_world = Inr [(''2023-01-03'', ''2023-01-03'')]"
proof -
  have h: "parse_dates (select_dates_asc (stocks example_world) ''AAPL'')
     = Inr [\<lparr>year = 2023, month = 1, day = 1\<rparr>, \<lparr>year = 2023, month = 1, day = 2\<rparr>,
            \<lparr>year = 2023, month = 1, day = 4\<rparr>]"
    by (simp only: example_stock_dates example_parse)
  from gap_detection_ranges [OF h] h show ?thesis
    by (simp only: example_gaps simp_thms)
qed

text \<open>
  Claim C10. The stock routine and the national-debt routine return the same result
  (the same list of missing ranges, or the same error) whenever the ascending sequences
  of stored date strings they read are the same.
\<close>

theorem gap_detection_stock_debt_equal:
  assumes "select_dates_asc (stocks w) symbol = select_dates_asc (national_debt w) nation"
  shows "get_missing_date_ranges_stock symbol w = get_missing_date_ranges_debt nation w"
  using assms
  by (simp add: get_missing_date_ranges_stock_def get_missing_date_ranges_debt_def
        gap_loops_equal Let_def split: sum.splits)

theorem gap_detection_stock_debt_equal_witness:
  "select_dates_asc (stocks example_world) ''AAPL'' =
     select_dates_asc (national_debt example_world) ''US'' \<and>
   get_missing_date_ranges_stock ''AAPL'' example_world =
     get_missing_date_ranges_debt ''US'' example_world"
proof -
  have h: "select_dates_asc (stocks example_world) ''AAPL'' =
     select_dates_asc (national_debt example_world) ''US''"
    by (simp only: example_stock_dates example_debt_dates)
  from gap_detection_stock_debt_equal [OF h] h show ?thesis by blast
qed

section \<open>Formatted dates and their order as text\<close>

lemma of_char_digit_char: "n < 10 \<Longrightarrow> (of_char (digit_char n) :: nat) = 48 + n"
  by (simp add: digit_char_def)

lemma digit_char_less_iff: "a < 10 \<Longrightarrow> b < 10 \<Longrightarrow> digit_char a < digit_char b \<longleftrightarrow> a < b"
  by (simp add: less_char_def of_char_digit_char)

lemma digit_char_eq_iff: "a < 10 \<Longrightarrow> b < 10 \<Longrightarrow> digit_char a = digit_char b \<longleftrightarrow> a = b"
proof -
  assume a: "a < 10" and b: "b < 10"
  have "digit_char a = digit_char b \<longleftrightarrow> (of_char (digit_char a) :: nat) = of_char (digit_char b)"
    by simp
  also have "\<dots> \<longleftrightarrow> a = b" using a b by (simp only: of_char_digit_char) simp
  finally show ?thesis .
qed

lemma two_digits_less:
  fixes a1 a0 b1 b0 :: nat
  assumes "a0 < 10" "b0 < 10"
  shows "(a1 < b1 \<or> a1 = b1 \<and> a0 < b0) \<longleftrightarrow> 10 * a1 + a0 < 10 * b1 + b0"
  using assms by arith

lemma pad2_less:
  assumes "m < 100" "n < 100"
  shows "pad2 m @ xs < pad2 n @ ys \<longleftrightarrow> m < n \<or> m = n \<and> xs < ys"
proof -
  define a1 a0 b1 b0 where "a1 = m div 10" and "a0 = m mod 10" and "b1 = n div 10" and "b0 = n mod 10"
  have r: "a1 < 10" "a0 < 10" "b1 < 10" "b0 < 10" "m = 10 * a1 + a0" "n = 10 * b1 + b0"
    using assms by (auto simp: a1_def a0_def b1_def b0_def)
  have p: "pad2 m = [digit_char a1, digit_char a0]" "pad2 n = [digit_char b1, digit_char b0]"
    using assms by (simp_all add: pad2_def a1_def a0_def b1_def b0_def)
  have "pad2 m @ xs < pad2 n @ ys \<longleftrightarrow>
        (a1 < b1 \<or> a1 = b1 \<and> (a0 < b0 \<or> a0 = b0 \<and> xs < ys))"
    using r(1-4) by (simp add: p digit_char_less_iff digit_char_eq_iff)
  also have "\<dots> \<longleftrightarrow> m < n \<or> m = n \<and> xs < ys"
    using r by auto
  finally show ?thesis .
qed

lemma pad4_less:
  assumes "m < 10000" "n < 10000"
  shows "pad4 m @ xs < pad4 n @ ys \<longleftrightarrow> m < n \<or> m = n \<and> xs < ys"
proof -
  define mh ml nh nl where "mh = m div 100" and "ml = m mod 100" and "nh = n div 100" and "nl = n mod 100"
  have r: "mh < 100" "ml < 100" "nh < 100" "nl < 100"
    using assms by (auto simp: mh_def ml_def nh_def nl_def)
  have e: "m = 100 * mh + ml" "n = 100 * nh + nl"
    by (simp_all add: mh_def ml_def nh_def nl_def)
  have p: "pad4 m @ xs = pad2 mh @ (pad2 ml @ xs)" "pad4 n @ ys = pad2 nh @ (pad2 nl @ ys)"
    by (simp_all add: pad4_def mh_def ml_def nh_def nl_def)
  have "pad4 m @ xs < pad4 n @ ys \<longleftrightarrow> mh < nh \<or> mh = nh \<and> (ml < nl \<or> ml = nl \<and> xs < ys)"
    by (simp only: p pad2_less [OF r(1) r(3)] pad2_less [OF r(2) r(4)])
  also have "\<dots> \<longleftrightarrow> m < n \<or> m = n \<and> xs < ys"
    using r e by auto
  finally show ?thesis .
qed

lemma days_in_month_le: "days_in_month y m \<le> 31" if "1 \<le> m" "m \<le> 12"
  using month_cases [OF that] by (auto simp: days_in_month_def)

lemma days_in_month_ge: "28 \<le> days_in_month y m" if "1 \<le> m" "m \<le> 12"
  using month_cases [OF that] by (auto simp: days_in_month_def)

lemma strftime_less_iff:
  assumes "valid_date a" "valid_date b"
  shows "strftime a < strftime b \<longleftrightarrow> date_less a b"
proof -
  from assms days_in_month_le [of "month a" "year a"] days_in_month_le [of "month b" "year b"]
  have r: "year a < 10000" "year b < 10000" "month a < 100" "month b < 100"
          "day a < 100" "day b < 100"
    by (auto simp: valid_date_def)
  have "pad2 (day a) @ [] < pad2 (day b) @ [] \<longleftrightarrow> day a < day b"
    using pad2_less [OF r(5,6), of "[]" "[]"] by simp
  then have dd: "pad2 (day a) < pad2 (day b) \<longleftrightarrow> day a < day b" by simp
  show ?thesis
    unfolding strftime_def date_less_def
    by (simp add: pad4_less [OF r(1,2)] pad2_less [OF r(3,4)] dd)
qed

lemma next_day_valid:
  assumes "valid_date d" "plus_one_day d = Inr s"
  shows "valid_date s" and "date_less d s"
proof -
  from assms(1) have v: "1 \<le> year d" "year d \<le> 9999" "1 \<le> month d" "month d \<le> 12"
    "1 \<le> day d" "day d \<le> days_in_month (year d) (month d)"
    by (auto simp: valid_date_def)
  from assms(2) have nm: "\<not> (year d = 9999 \<and> month d = 12 \<and> day d = 31)" and s: "s = next_day d"
    by (auto simp: plus_one_day_def split: if_splits)
  have dec: "days_in_month (year d) 12 = 31" by (simp add: days_in_month_def)
  show "valid_date s"
    using v nm dec days_in_month_ge [of "month d + 1" "year d"] days_in_month_ge [of 1 "year d + 1"]
    by (auto simp: s next_day_def valid_date_def)
  show "date_less d s"
    using v by (auto simp: s next_day_def date_less_def)
qed

section \<open>The provider adapter\<close>

text \<open>
  Claim C8. Resolving a nation to its proxy symbol cannot fail: whatever the nation code,
  \<open>capture_national_debt\<close> sends its request under a symbol, which is the table's entry
  for a recognised code and \<open>^TNX\<close> for every other code; an error can only be one
  that the provider raised.
\<close>

theorem nation_proxy_fallback:
  "(\<forall>s. TREASURY_SYMBOLS nation = Some s \<longrightarrow>
      requests (snd (capture_national_debt prov nation start w)) =
        requests w @ [(s, strftime start, strftime (now prov))]) \<and>
   (TREASURY_SYMBOLS nation = None \<longrightarrow>
      requests (snd (capture_national_debt prov nation start w)) =
        requests w @ [(''^TNX'', strftime start, strftime (now prov))]) \<and>
   (\<forall>e. fst (capture_national_debt prov nation start w) = Inl e \<longrightarrow>
      (\<exists>symbol. history prov symbol (strftime start) (strftime (now prov)) = Inl e))"
  by (cases "TREASURY_SYMBOLS nation")
     (auto simp: capture_national_debt_def Let_def split: sum.splits)

lemma unrecognised_nation: "TREASURY_SYMBOLS ''DGS10'' = None"
  by (simp add: TREASURY_SYMBOLS_def)

theorem nation_proxy_fallback_witness:
  "TREASURY_SYMBOLS ''DGS10'' = None \<and>
   requests (snd (capture_national_debt quiet_provider ''DGS10'' example_now empty_world)) =
     requests empty_world @ [(''^TNX'', strftime example_now, strftime (now quiet_provider))]"
proof -
  note t = nation_proxy_fallback [of "''DGS10''" quiet_provider example_now empty_world]
  from t have "TREASURY_SYMBOLS ''DGS10'' = None \<longrightarrow>
      requests (snd (capture_national_debt quiet_provider ''DGS10'' example_now empty_world)) =
        requests empty_world @ [(''^TNX'', strftime example_now, strftime (now quiet_provider))]"
    by (rule conjunct1 [OF conjunct2])
  from this unrecognised_nation
  have "requests (snd (capture_national_debt quiet_provider ''DGS10'' example_now empty_world)) =
        requests empty_world @ [(''^TNX'', strftime example_now, strftime (now quiet_provider))]"
    by (rule mp)
  with unrecognised_nation show ?thesis by (rule conjI)
qed

section \<open>Incremental append on an empty store\<close>

text \<open>
  Claim C1, evaluated. The incremental append on a store that holds no row for the tracked keys: nothing is
  requested from the provider and nothing is written, whatever the provider has.
\<close>

theorem update_missing_data_skips_empty_keys:
  "update_missing_data prov empty_world = (None, empty_world)"
  by (simp add: update_missing_data_def update_missing_data_conn_def close_without_commit_def
        for_section_def update_missing_stock_def update_missing_debt_def select_max_date_def
        empty_world_def example_config_def empty_table_def Let_def)

section \<open>Adding a stock to the configuration\<close>

lemma upper_char_idem: "upper_char (upper_char c) = upper_char c"
proof (cases "97 \<le> (of_char c :: nat) \<and> (of_char c :: nat) \<le> 122")
  case True
  then have u: "upper_char c = char_of ((of_char c :: nat) - 32)"
    unfolding upper_char_def Let_def by (rule if_P)
  from True have "(of_char c :: nat) - 32 < 256" by arith
  then have "(of_char (char_of ((of_char c :: nat) - 32)) :: nat) = of_char c - 32"
    by (simp only: of_char_of mod_less)
  with True have "\<not> (97 \<le> (of_char (upper_char c) :: nat) \<and> (of_char (upper_char c) :: nat) \<le> 122)"
    unfolding u by arith
  then show ?thesis
    unfolding upper_char_def [of "upper_char c"] Let_def by (rule if_not_P)
next
  case False
  then have "upper_char c = c"
    unfolding upper_char_def Let_def by (rule if_not_P)
  then show ?thesis by simp
qed

lemma upper_idem: "upper (upper s) = upper s"
  by (simp add: upper_def upper_char_idem)

lemma update_existing_no_match:
  "\<forall>e \<in> set es. upper (name e) \<noteq> upper stock \<Longrightarrow> update_existing stock sd ed es = (False, es)"
  by (induction es) auto

lemma update_existing_match:
  "\<exists>e \<in> set es. upper (name e) = upper stock \<Longrightarrow>
   update_existing stock sd ed es =
     (True, takeWhile (\<lambda>e. upper (name e) \<noteq> upper stock) es
            @ (hd (dropWhile (\<lambda>e. upper (name e) \<noteq> upper stock) es))
                \<lparr>start_date := sd, end_date := Some ed\<rparr>
            # tl (dropWhile (\<lambda>e. upper (name e) \<noteq> upper stock) es))"
proof (induction es)
  case Nil
  then show ?case by simp
next
  case (Cons a es)
  show ?case
  proof (cases "upper (name a) = upper stock")
    case True
    then show ?thesis by simp
  next
    case False
    with Cons.prems have "\<exists>e \<in> set es. upper (name e) = upper stock" by auto
    from Cons.IH [OF this] False show ?thesis by simp
  qed
qed

lemma names_after_match:
  "\<exists>e \<in> set es. upper (name e) = upper stock \<Longrightarrow>
   map name (takeWhile (\<lambda>e. upper (name e) \<noteq> upper stock) es
            @ (hd (dropWhile (\<lambda>e. upper (name e) \<noteq> upper stock) es))
                \<lparr>start_date := sd, end_date := Some ed\<rparr>
            # tl (dropWhile (\<lambda>e. upper (name e) \<noteq> upper stock) es)) = map name es"
proof (induction es)
  case Nil
  then show ?case by simp
next
  case (Cons a es)
  show ?case
  proof (cases "upper (name a) = upper stock")
    case True
    then show ?thesis by simp
  next
    case False
    with Cons.prems have "\<exists>e \<in> set es. upper (name e) = upper stock" by auto
    from Cons.IH [OF this] False show ?thesis by simp
  qed
qed

lemma tracked_after_add:
  "tracked_stocks (add_stock_entry stock sd ed c) =
     (if fst (update_existing stock sd ed (tracked_stocks c))
      then snd (update_existing stock sd ed (tracked_stocks c))
      else snd (update_existing stock sd ed (tracked_stocks c))
             @ [\<lparr>name = upper stock, start_date = sd, end_date = Some ed\<rparr>])"
  by (simp add: tracked_stocks_def add_stock_entry_def Let_def split: prod.splits option.splits)

text \<open>
  Claim C7, amended. The Add operation matches tracked stock keys without regard to
  case: when an entry matches, the first matching entry gets the new start and end dates,
  no entry is appended and every stored name stays as it was; when none matches, one
  entry is appended and its key is the upper-cased argument. Hence every stored key is
  upper case after an add whenever every stored key was upper case before it.
\<close>

theorem add_stock_entry_amended:
  "(let es = tracked_stocks c;
        es' = tracked_stocks (add_stock_entry stock sd ed c);
        P = (\<lambda>e. upper (name e) \<noteq> upper stock)
    in ((\<exists>e \<in> set es. upper (name e) = upper stock) \<longrightarrow>
          es' = takeWhile P es
                @ (hd (dropWhile P es))\<lparr>start_date := sd, end_date := Some ed\<rparr>
                # tl (dropWhile P es) \<and>
          map name es' = map name es) \<and>
       ((\<forall>e \<in> set es. upper (name e) \<noteq> upper stock) \<longrightarrow>
          es' = es @ [\<lparr>name = upper stock, start_date = sd, end_date = Some ed\<rparr>]) \<and>
       ((\<forall>e \<in> set es. upper (name e) = name e) \<longrightarrow>
          (\<forall>e \<in> set es'. upper (name e) = name e)))"
proof -
  let ?es = "tracked_stocks c"
  let ?es' = "tracked_stocks (add_stock_entry stock sd ed c)"
  let ?P = "\<lambda>e. upper (name e) \<noteq> upper stock"
  have a: "(\<exists>e \<in> set ?es. upper (name e) = upper stock) \<longrightarrow>
          ?es' = takeWhile ?P ?es
                @ (hd (dropWhile ?P ?es))\<lparr>start_date := sd, end_date := Some ed\<rparr>
                # tl (dropWhile ?P ?es) \<and>
          map name ?es' = map name ?es"
  proof
    assume m: "\<exists>e \<in> set ?es. upper (name e) = upper stock"
    have "?es' = takeWhile ?P ?es
                @ (hd (dropWhile ?P ?es))\<lparr>start_date := sd, end_date := Some ed\<rparr>
                # tl (dropWhile ?P ?es)"
      by (simp add: tracked_after_add update_existing_match [OF m])
    with names_after_match [OF m, of sd ed]
    show "?es' = takeWhile ?P ?es
                @ (hd (dropWhile ?P ?es))\<lparr>start_date := sd, end_date := Some ed\<rparr>
                # tl (dropWhile ?P ?es) \<and>
          map name ?es' = map name ?es" by simp
  qed
  have b: "(\<forall>e \<in> set ?es. upper (name e) \<noteq> upper stock) \<longrightarrow>
          ?es' = ?es @ [\<lparr>name = upper stock, start_date = sd, end_date = Some ed\<rparr>]"
    by (simp add: tracked_after_add update_existing_no_match)
  have c: "(\<forall>e \<in> set ?es. upper (name e) = name e) \<longrightarrow>
          (\<forall>e \<in> set ?es'. upper (name e) = name e)"
  proof (cases "\<exists>e \<in> set ?es. upper (name e) = upper stock")
    case True
    with a have n: "map name ?es' = map name ?es" by blast
    show ?thesis
    proof (intro impI ballI)
      fix e assume u: "\<forall>e \<in> set ?es. upper (name e) = name e" and e: "e \<in> set ?es'"
      then have "name e \<in> set (map name ?es')" by simp
      with n have "name e \<in> name ` set ?es" by simp
      with u show "upper (name e) = name e" by auto
    qed
  next
    case False
    with b have "?es' = ?es @ [\<lparr>name = upper stock, start_date = sd, end_date = Some ed\<rparr>]"
      by blast
    then show ?thesis by (auto simp: upper_idem)
  qed
  from a b c show ?thesis by (simp only: Let_def)
qed


lemma upper_aapl: "upper ''aapl'' = ''AAPL''" "upper ''AAPL'' = ''AAPL''"
  by code_simp+

text \<open>
  Adding AAPL to a configuration that tracks the stock under the name aapl rewrites the
  dates of that entry and leaves its key in lower case.
\<close>

theorem add_keeps_stored_name_counterexample:
  "tracked_stocks (add_stock_entry ''AAPL'' ''2024-01-01'' ''2024-06-01''
      \<lparr>cfg_stocks = Some [\<lparr>name = ''aapl'', start_date = ''2023-01-01'', end_date = None\<rparr>],
       cfg_national_debt = None\<rparr>)
     = [\<lparr>name = ''aapl'', start_date = ''2024-01-01'', end_date = Some ''2024-06-01''\<rparr>] \<and>
   upper ''aapl'' \<noteq> ''aapl''"
  by (simp add: tracked_stocks_def add_stock_entry_def upper_aapl)

theorem add_stock_entry_amended_witness:
  "(\<exists>e \<in> set (tracked_stocks example_config). upper (name e) = upper ''aapl'') \<and>
   tracked_stocks (add_stock_entry ''aapl'' ''2024-01-01'' ''2024-06-01'' example_config)
     = [\<lparr>name = ''AAPL'', start_date = ''2024-01-01'', end_date = Some ''2024-06-01''\<rparr>]"
proof -
  have m: "\<exists>e \<in> set (tracked_stocks example_config). upper (name e) = upper ''aapl''"
    by (simp add: tracked_stocks_def example_config_def upper_aapl)
  from add_stock_entry_amended [of example_config "''aapl''" "''2024-01-01''" "''2024-06-01''"] m
  have "tracked_stocks (add_stock_entry ''aapl'' ''2024-01-01'' ''2024-06-01'' example_config) =
      takeWhile (\<lambda>e. upper (name e) \<noteq> upper ''aapl'') (tracked_stocks example_config)
        @ (hd (dropWhile (\<lambda>e. upper (name e) \<noteq> upper ''aapl'') (tracked_stocks example_config)))
            \<lparr>start_date := ''2024-01-01'', end_date := Some ''2024-06-01''\<rparr>
        # tl (dropWhile (\<lambda>e. upper (name e) \<noteq> upper ''aapl'') (tracked_stocks example_config))"
    by (simp only: Let_def)
  then have "tracked_stocks (add_stock_entry ''aapl'' ''2024-01-01'' ''2024-06-01'' example_config)
     = [\<lparr>name = ''AAPL'', start_date = ''2024-01-01'', end_date = Some ''2024-06-01''\<rparr>]"
    by (simp add: tracked_stocks_def example_config_def upper_aapl)
  with m show ?thesis by (rule conjI)
qed

section \<open>The P/E snapshot\<close>

lemma dict_set_mem:
  "(k', v') \<in> set (dict_set kvs k v) \<Longrightarrow> (k', v') \<in> set kvs \<or> (k' = k \<and> v' = v)"
  by (induction kvs) (auto split: if_splits)

lemma build_price_data_pe:
  "\<forall>(dt, p) \<in> set acc. p_pe p = pe \<Longrightarrow>
   \<forall>(dt, p) \<in> set (build_price_data hist pe acc). p_pe p = pe"
proof (induction hist arbitrary: acc)
  case Nil
  then show ?case by simp
next
  case (Cons x hist)
  obtain dt row where x: "x = (dt, row)" by (cases x)
  have "\<forall>(d, p) \<in> set (dict_set acc dt
          \<lparr>p_open = Open row, p_close = Close row, p_low = Low row, p_high = High row,
           p_volume = Volume row, p_pe = pe\<rparr>). p_pe p = pe"
    using Cons.prems by (auto dest!: dict_set_mem)
  from Cons.IH [OF this] show ?case by (simp add: x)
qed

lemma insert_stock_rows_upserts:
  "insert_stock_rows t nm items =
     upserts (map (\<lambda>(dt, price). (nm, strftime dt, stock_vals_of price)) items) t"
  by (induction items arbitrary: t) auto

lemma insert_debt_rows_upserts:
  "insert_debt_rows t nm items =
     upserts (map (\<lambda>(dt, y). (nm, strftime dt, bind_real y)) items) t"
  by (induction items arbitrary: t) auto


lemma c_pe_stock_vals_of: "c_pe (stock_vals_of price) = bind_real (p_pe price)"
  by (cases "p_pe price") (simp_all add: stock_vals_of_def)

lemma dict_set_dom: "fst ` set (dict_set kvs k v) = insert k (fst ` set kvs)"
proof (induction kvs)
  case Nil
  then show ?case by simp
next
  case (Cons x kvs)
  obtain k' v' where x: "x = (k', v')" by (cases x)
  show ?case by (cases "k' = k") (simp_all add: x Cons.IH insert_commute)
qed

lemma build_price_data_dom:
  "fst ` set (build_price_data hist pe acc) = fst ` set hist \<union> fst ` set acc"
proof (induction hist arbitrary: acc)
  case Nil
  then show ?case by simp
next
  case (Cons x hist)
  obtain d row where x: "x = (d, row)" by (cases x)
  show ?case by (simp add: x Cons.IH dict_set_dom)
qed

lemma upserts_select_last:
  assumes m: "(k, d, v) \<in> set ops"
      and p: "\<forall>(k', d', v') \<in> set ops. k' = k \<and> d' = d \<longrightarrow> f v' = x"
  shows "map (\<lambda>r. f (vals r)) (filter (matches k d) (rows (upserts ops t))) = [x]"
proof -
  let ?P = "\<lambda>op. fst op = k \<and> fst (snd op) = d"
  from m have "\<exists>op \<in> set ops. ?P op" by force
  from split_list_last_prop [OF this] obtain pre op post where
    s: "ops = pre @ op # post" and o: "?P op" and n: "\<forall>z \<in> set post. \<not> ?P z"
    by blast
  obtain v' where op: "op = (k, d, v')" using o by (cases op) auto
  from n have n': "\<forall>(k', d', v') \<in> set post. \<not> (k' = k \<and> d' = d)" by auto
  have "filter (matches k d) (rows (upserts ops t)) =
      filter (matches k d) (rows (insert_or_replace (upserts pre t) k d v'))"
    using select_upserts_other [OF n'] by (simp add: s op upserts_append)
  then have "map vals (filter (matches k d) (rows (upserts ops t))) = [v']"
    by (simp add: select_insert_same)
  then have "map (\<lambda>r. f (vals r)) (filter (matches k d) (rows (upserts ops t))) = [f v']"
    by (auto simp: map_eq_Cons_conv)
  moreover from p s op have "f v' = x" by auto
  ultimately show ?thesis by simp
qed

lemma c_pe_stock_vals_of_cases:
  "c_pe (stock_vals_of price) = (case p_pe price of NaN \<Rightarrow> None | Dbl x \<Rightarrow> Some x)"
  by (cases "p_pe price") (simp_all add: stock_vals_of_def)

text \<open>
  Claim C9, amended. One call of \<open>capture_stock\<close> that returns holds a bar for every
  timestamp of the provider's series and all its bars carry the same P/E, fixed by the
  provider's \<open>trailingPE\<close> alone: that float, or that integer as a float; NaN when
  the value is \<open>None\<close>, a string or any other object that is not an \<open>int\<close> or a \<open>float\<close>;
  and, because a \<open>bool\<close> is an \<open>int\<close>, 1.0 for \<open>True\<close> and 0.0 for \<open>False\<close>. After the
  bars are written, the table holds exactly one row for the stock at each bar's date, and
  its \<open>pe\<close> column is that number, or NULL when the snapshot is NaN. An integer beyond
  the range of a double never gets this far.
\<close>

theorem pe_snapshot:
  assumes "capture_stock prov nm start w = (Inr stk, w1)"
      and "history prov nm (strftime start) (strftime (now prov)) = Inr hist"
      and "trailingPE prov nm = Inr v"
  shows "stock_name stk = nm \<and> fst ` set (stock_data stk) = fst ` set hist \<and>
         (\<forall>(dt, price) \<in> set (stock_data stk).
            p_pe price =
              (case v of PyNone \<Rightarrow> NaN | PyBool b \<Rightarrow> Dbl (if b then 1 else 0)
               | PyInt i \<Rightarrow> Dbl (real_of_int i) | PyFloat f \<Rightarrow> f | PyStr s \<Rightarrow> NaN
               | PyOther \<Rightarrow> NaN)) \<and>
         (\<forall>(dt, price) \<in> set (stock_data stk).
            map (\<lambda>r. c_pe (vals r))
              (filter (matches nm (strftime dt))
                 (rows (insert_stock_rows t (stock_name stk) (stock_data stk)))) =
              [case v of PyNone \<Rightarrow> None | PyBool b \<Rightarrow> Some (if b then 1 else 0)
               | PyInt i \<Rightarrow> Some (real_of_int i) | PyFloat NaN \<Rightarrow> None
               | PyFloat (Dbl x) \<Rightarrow> Some x | PyStr s \<Rightarrow> None | PyOther \<Rightarrow> None]) \<and>
         (\<forall>i. v = PyInt i \<longrightarrow> \<bar>i\<bar> < 2 ^ 1024 - 2 ^ 970)"
proof -
  let ?pe = "case v of PyNone \<Rightarrow> NaN | PyBool b \<Rightarrow> Dbl (if b then 1 else 0)
               | PyInt i \<Rightarrow> Dbl (real_of_int i) | PyFloat f \<Rightarrow> f | PyStr s \<Rightarrow> NaN
               | PyOther \<Rightarrow> NaN"
  let ?col = "case v of PyNone \<Rightarrow> None | PyBool b \<Rightarrow> Some (if b then 1 else 0)
               | PyInt i \<Rightarrow> Some (real_of_int i) | PyFloat NaN \<Rightarrow> None
               | PyFloat (Dbl x) \<Rightarrow> Some x | PyStr s \<Rightarrow> None | PyOther \<Rightarrow> None"
  from assms obtain pe where r: "pe_ratio_of v = Inr pe"
    and n: "stock_name stk = nm"
    and sd: "stock_data stk = build_price_data hist pe []"
    by (auto simp: capture_stock_def Let_def split: sum.splits)
  from r have pe: "pe = ?pe"
    by (cases v) (auto split: if_splits)
  from r have ov: "\<forall>i. v = PyInt i \<longrightarrow> \<bar>i\<bar> < 2 ^ 1024 - 2 ^ 970"
    by (auto simp: float_max_int_def split: if_splits)
  have col: "(case ?pe of NaN \<Rightarrow> None | Dbl x \<Rightarrow> Some x) = ?col"
    by (cases v) (auto split: pyfloat.splits)
  have dom: "fst ` set (stock_data stk) = fst ` set hist"
    by (simp add: sd build_price_data_dom)
  have a: "\<forall>(dt, price) \<in> set (stock_data stk). p_pe price = ?pe"
    unfolding sd pe [symmetric] by (rule build_price_data_pe) simp
  have b: "\<forall>(dt, price) \<in> set (stock_data stk).
            map (\<lambda>r. c_pe (vals r))
              (filter (matches nm (strftime dt))
                 (rows (insert_stock_rows t (stock_name stk) (stock_data stk)))) = [?col]"
  proof (intro ballI, clarify)
    fix dt price assume m: "(dt, price) \<in> set (stock_data stk)"
    let ?ops = "map (\<lambda>(dt, price). (nm, strftime dt, stock_vals_of price)) (stock_data stk)"
    from m have m': "(nm, strftime dt, stock_vals_of price) \<in> set ?ops" by force
    have p: "\<forall>(k', d', v') \<in> set ?ops. k' = nm \<and> d' = strftime dt \<longrightarrow> c_pe v' = ?col"
      using a by (auto simp: c_pe_stock_vals_of_cases col)
    from upserts_select_last [OF m' p, of t]
    show "map (\<lambda>r. c_pe (vals r))
              (filter (matches nm (strftime dt))
                 (rows (insert_stock_rows t (stock_name stk) (stock_data stk)))) = [?col]"
      by (simp add: insert_stock_rows_upserts n)
  qed
  from n dom a b ov show ?thesis by (intro conjI)
qed


text \<open>An integer P/E too large for a double makes the call fail.\<close>

lemma capture_stock_overflow:
  assumes "history prov nm (strftime start) (strftime (now prov)) = Inr hist"
      and "trailingPE prov nm = Inr (PyInt i)" and "2 ^ 1024 - 2 ^ 970 \<le> \<bar>i\<bar>"
  shows "fst (capture_stock prov nm start w) = Inl OverflowError"
  using assms by (simp add: capture_stock_def Let_def float_max_int_def)

section \<open>Runs over the configuration\<close>

lemma for_entries_invariant:
  assumes step: "\<And>e w r w'. e \<in> set es \<Longrightarrow> I w \<Longrightarrow> body e w = (r, w') \<Longrightarrow> I w' \<and> R w w'"
      and refl: "\<And>w. R w w"
      and trans: "\<And>a b c. R a b \<Longrightarrow> R b c \<Longrightarrow> R a c"
      and "I w" "for_entries body es w = (r, w')"
  shows "I w' \<and> R w w'"
  using assms(1,4,5)
proof (induction es arbitrary: w)
  case Nil
  then show ?case using refl by simp
next
  case (Cons e es)
  obtain r1 w1 where b: "body e w = (r1, w1)" by (cases "body e w")
  from Cons.prems(1) [OF _ Cons.prems(2) b] have s: "I w1" "R w w1" by simp_all
  show ?case
  proof (cases r1)
    case (Some err)
    with Cons.prems(3) b s show ?thesis by simp
  next
    case None
    with Cons.prems(3) b have f: "for_entries body es w1 = (r, w')" by simp
    have st: "\<And>e' w r w'. e' \<in> set es \<Longrightarrow> I w \<Longrightarrow> body e' w = (r, w') \<Longrightarrow> I w' \<and> R w w'"
      by (rule Cons.prems(1)) simp_all
    have "I w' \<and> R w1 w'"
      by (rule Cons.IH [OF st s(1) f])
    with s trans show ?thesis by blast
  qed
qed

lemma for_section_invariant:
  assumes step: "\<And>e w r w'. I w \<Longrightarrow> body e w = (r, w') \<Longrightarrow> I w' \<and> R w w'"
      and refl: "\<And>w. R w w"
      and trans: "\<And>a b c. R a b \<Longrightarrow> R b c \<Longrightarrow> R a c"
      and "I w" "for_section body sect w = (r, w')"
  shows "I w' \<and> R w w'"
proof (cases sect)
  case None
  with assms(4,5) refl show ?thesis by (simp add: for_section_def)
next
  case (Some es)
  with assms(5) have "for_entries body es w = (r, w')" by (simp add: for_section_def)
  from for_entries_invariant [where I = I and R = R, OF step refl trans assms(4) this]
  show ?thesis by simp
qed

lemma capture_stock_frame:
  assumes "capture_stock prov nm start w = (res, w1)"
  shows "same_tables w w1"
    and "requests w1 = requests w @ [(nm, strftime start, strftime (now prov))]"
  using assms
  by (auto simp: capture_stock_def Let_def same_tables_def split: sum.splits)

lemma capture_national_debt_frame:
  assumes "capture_national_debt prov nm start w = (res, w1)"
  shows "same_tables w w1"
    and "requests w1 = requests w @ [(proxy_symbol nm, strftime start, strftime (now prov))]"
  using assms
  by (auto simp: capture_national_debt_def proxy_symbol_def Let_def same_tables_def
      split: sum.splits option.splits)

lemma same_tables_refl: "same_tables w w"
  by (simp add: same_tables_def)

lemma same_tables_trans: "same_tables a b \<Longrightarrow> same_tables b c \<Longrightarrow> same_tables a c"
  by (simp add: same_tables_def)

section \<open>The example run\<close>

lemma ex_strptime_0104: "strptime ''2023-01-04'' = Inr \<lparr>year = 2023, month = 1, day = 4\<rparr>"
  by code_simp

lemma ex_plus_one_0104:
  "plus_one_day \<lparr>year = 2023, month = 1, day = 4\<rparr> = Inr \<lparr>year = 2023, month = 1, day = 5\<rparr>"
  by (simp add: plus_one_day_def next_day_def days_in_month_def is_leap_def)

lemma ex_strftime_more:
  "strftime \<lparr>year = 2023, month = 1, day = 4\<rparr> = ''2023-01-04''"
  "strftime \<lparr>year = 2023, month = 1, day = 5\<rparr> = ''2023-01-05''"
  "strftime \<lparr>year = 2023, month = 1, day = 6\<rparr> = ''2023-01-06''"
  "strftime \<lparr>year = 2023, month = 1, day = 10\<rparr> = ''2023-01-10''"
  by code_simp+

lemma ex_latest:
  "select_max_date example_stocks ''AAPL'' = Some ''2023-01-04''"
  "select_max_date example_debt ''US'' = Some ''2023-01-04''"
  by (simp_all add: example_stocks_def example_debt_def select_max_date_def
        insert_or_replace_def empty_table_def matches_def)

lemma ex_capture_aapl:
  "capture_stock append_provider ''AAPL'' \<lparr>year = 2023, month = 1, day = 5\<rparr> w =
     (Inr \<lparr>stock_name = ''AAPL'',
           stock_data = build_price_data
              [(\<lparr>year = 2023, month = 1, day = 5\<rparr>, bar1),
               (\<lparr>year = 2023, month = 1, day = 6\<rparr>, bar2)] (Dbl 26) [],
           tags = None\<rparr>,
      w\<lparr>requests := requests w @ [(''AAPL'', ''2023-01-05'', ''2023-01-10'')]\<rparr>)"
  unfolding capture_stock_def Let_def
  by (simp only: ex_strftime_more append_provider_def provider.simps example_now_def)
     simp

lemma ex_capture_us:
  "capture_national_debt append_provider ''US'' \<lparr>year = 2023, month = 1, day = 5\<rparr> w =
     (Inr \<lparr>nation_data = []\<rparr>,
      w\<lparr>requests := requests w @ [(''^TNX'', ''2023-01-05'', ''2023-01-10'')]\<rparr>)"
  unfolding capture_national_debt_def Let_def
  by (simp only: ex_strftime_more append_provider_def provider.simps example_now_def)
     (simp add: TREASURY_SYMBOLS_def)


lemma ex_world_fields:
  "toml_file example_world = example_config"
  "stocks example_world = example_stocks"
  "national_debt example_world = example_debt"
  "requests example_world = []"
  "cfg_stocks example_config =
     Some [\<lparr>name = ''AAPL'', start_date = ''2023-01-01'', end_date = None\<rparr>]"
  "cfg_national_debt example_config =
     Some [\<lparr>name = ''US'', start_date = ''2023-01-01'', end_date = None\<rparr>]"
  by (simp_all add: example_world_def example_config_def)

lemma ex_run1:
  "update_missing_data_conn append_provider example_world = (None, world_after_append)"
  unfolding world_after_append_def update_missing_data_conn_def for_section_def update_missing_stock_def
    update_missing_debt_def Let_def
  apply (simp only: ex_world_fields option.case for_entries.simps entry.simps world.simps
      ex_latest ex_strptime_0104 ex_plus_one_0104 ex_capture_aapl ex_capture_us
      sum.case prod.case list.distinct if_False Stock.simps NationDebt.simps
      insert_debt_rows.simps append_Nil)
  apply (simp add: ex_world_fields ex_latest ex_strptime_0104 ex_plus_one_0104 ex_capture_aapl
      ex_capture_us del: One_nat_def)
  done

lemma ex_after_append_rows:
  "map (\<lambda>r. (key r, date r)) (rows (stocks world_after_append)) =
     [(''AAPL'', ''2023-01-04''), (''AAPL'', ''2023-01-01''), (''MSFT'', ''2023-01-03''),
      (''AAPL'', ''2023-01-02''), (''AAPL'', ''2023-01-05''), (''AAPL'', ''2023-01-06'')]"
  by (simp add: world_after_append_def example_stocks_def insert_or_replace_def
        empty_table_def matches_def ex_strftime_more del: One_nat_def)

section \<open>The P/E snapshot on the examples\<close>

lemma ex_aapl_stock:
  "capture_stock append_provider ''AAPL'' \<lparr>year = 2023, month = 1, day = 5\<rparr> example_world =
     (Inr aapl_stock, example_world\<lparr>requests := [(''AAPL'', ''2023-01-05'', ''2023-01-10'')]\<rparr>)"
  by (simp only: ex_capture_aapl)
     (simp add: aapl_stock_def bar1_def bar2_def ex_world_fields del: One_nat_def)

lemma ex_aapl_history:
  "history append_provider ''AAPL'' (strftime \<lparr>year = 2023, month = 1, day = 5\<rparr>)
      (strftime (now append_provider)) =
     Inr [(\<lparr>year = 2023, month = 1, day = 5\<rparr>, bar1), (\<lparr>year = 2023, month = 1, day = 6\<rparr>, bar2)]"
  by (simp only: ex_strftime_more append_provider_def provider.simps example_now_def) simp

lemma ex_msft_stock:
  "capture_stock no_pe_provider ''MSFT'' example_now empty_world =
     (Inr msft_stock,
      empty_world\<lparr>requests := [(''MSFT'', strftime example_now, strftime example_now)]\<rparr>)"
  by (simp add: capture_stock_def no_pe_provider_def Let_def msft_stock_def bar1_def bar2_def
        empty_world_def)

text \<open>
  The snapshot with a provider that has the P/E 26 for AAPL, and with one that has no
  P/E for MSFT.
\<close>

theorem pe_snapshot_witness:
  "capture_stock append_provider ''AAPL'' \<lparr>year = 2023, month = 1, day = 5\<rparr> example_world =
     (Inr aapl_stock, example_world\<lparr>requests := [(''AAPL'', ''2023-01-05'', ''2023-01-10'')]\<rparr>) \<and>
   trailingPE append_provider ''AAPL'' = Inr (PyFloat (Dbl 26)) \<and>
   map (\<lambda>(dt, price). p_pe price) (stock_data aapl_stock) = [Dbl 26, Dbl 26] \<and>
   map (\<lambda>r. c_pe (vals r))
     (filter (matches ''AAPL'' ''2023-01-05'')
        (rows (insert_stock_rows example_stocks (stock_name aapl_stock) (stock_data aapl_stock))))
     = [Some 26] \<and>
   map (\<lambda>r. c_pe (vals r))
     (filter (matches ''AAPL'' ''2023-01-06'')
        (rows (insert_stock_rows example_stocks (stock_name aapl_stock) (stock_data aapl_stock))))
     = [Some 26] \<and>
   capture_stock no_pe_provider ''MSFT'' example_now empty_world =
     (Inr msft_stock,
      empty_world\<lparr>requests := [(''MSFT'', strftime example_now, strftime example_now)]\<rparr>) \<and>
   trailingPE no_pe_provider ''MSFT'' = Inr PyNone \<and>
   map (\<lambda>(dt, price). p_pe price) (stock_data msft_stock) = [NaN, NaN] \<and>
   map (\<lambda>r. c_pe (vals r))
     (filter (matches ''MSFT'' ''2023-01-05'')
        (rows (insert_stock_rows empty_table (stock_name msft_stock) (stock_data msft_stock))))
     = [None]"
proof -
  have v1: "trailingPE append_provider ''AAPL'' = Inr (PyFloat (Dbl 26))"
    by (simp add: append_provider_def)
  note t1 = pe_snapshot [OF ex_aapl_stock ex_aapl_history v1, of example_stocks]
  from conjunct1 [OF conjunct2 [OF conjunct2 [OF t1]]]
  have a1: "\<forall>(dt, price) \<in> set (stock_data aapl_stock). p_pe price = Dbl 26"
    by (simp only: pyval.case)
  have a1': "map (\<lambda>(dt, price). p_pe price) (stock_data aapl_stock) = [Dbl 26, Dbl 26]"
    using a1 by (simp add: aapl_stock_def)
  from conjunct1 [OF conjunct2 [OF conjunct2 [OF conjunct2 [OF t1]]]]
  have b1: "\<forall>(dt, price) \<in> set (stock_data aapl_stock).
      map (\<lambda>r. c_pe (vals r))
        (filter (matches ''AAPL'' (strftime dt))
           (rows (insert_stock_rows example_stocks (stock_name aapl_stock)
              (stock_data aapl_stock)))) = [Some 26]"
    by (simp only: pyval.case pyfloat.case)
  have m5: "(\<lparr>year = 2023, month = 1, day = 5\<rparr>,
          \<lparr>p_open = Dbl 240, p_close = Dbl 241, p_low = Dbl 239, p_high = Dbl 242,
           p_volume = 500000, p_pe = Dbl 26\<rparr>) \<in> set (stock_data aapl_stock)"
    by (simp add: aapl_stock_def)
  have m6: "(\<lparr>year = 2023, month = 1, day = 6\<rparr>,
          \<lparr>p_open = Dbl 241, p_close = Dbl 244, p_low = Dbl 240, p_high = Dbl 245,
           p_volume = 600000, p_pe = Dbl 26\<rparr>) \<in> set (stock_data aapl_stock)"
    by (simp add: aapl_stock_def)
  from bspec [OF b1 m5] have b5: "map (\<lambda>r. c_pe (vals r))
     (filter (matches ''AAPL'' ''2023-01-05'')
        (rows (insert_stock_rows example_stocks (stock_name aapl_stock) (stock_data aapl_stock))))
     = [Some 26]"
    by (simp only: prod.case ex_strftime_more)
  from bspec [OF b1 m6] have b6: "map (\<lambda>r. c_pe (vals r))
     (filter (matches ''AAPL'' ''2023-01-06'')
        (rows (insert_stock_rows example_stocks (stock_name aapl_stock) (stock_data aapl_stock))))
     = [Some 26]"
    by (simp only: prod.case ex_strftime_more)
  have h2: "history no_pe_provider ''MSFT'' (strftime example_now) (strftime (now no_pe_provider)) =
     Inr [(\<lparr>year = 2023, month = 1, day = 5\<rparr>, bar1), (\<lparr>year = 2023, month = 1, day = 6\<rparr>, bar2)]"
    by (simp add: no_pe_provider_def)
  have v2: "trailingPE no_pe_provider ''MSFT'' = Inr PyNone"
    by (simp add: no_pe_provider_def)
  note t2 = pe_snapshot [OF ex_msft_stock h2 v2, of empty_table]
  from conjunct1 [OF conjunct2 [OF conjunct2 [OF t2]]]
  have a2: "\<forall>(dt, price) \<in> set (stock_data msft_stock). p_pe price = NaN"
    by (simp only: pyval.case)
  have a2': "map (\<lambda>(dt, price). p_pe price) (stock_data msft_stock) = [NaN, NaN]"
    using a2 by (simp add: msft_stock_def)
  from conjunct1 [OF conjunct2 [OF conjunct2 [OF conjunct2 [OF t2]]]]
  have b2: "\<forall>(dt, price) \<in> set (stock_data msft_stock).
      map (\<lambda>r. c_pe (vals r))
        (filter (matches ''MSFT'' (strftime dt))
           (rows (insert_stock_rows empty_table (stock_name msft_stock)
              (stock_data msft_stock)))) = [None]"
    by (simp only: pyval.case pyfloat.case)
  have n5: "(\<lparr>year = 2023, month = 1, day = 5\<rparr>,
          \<lparr>p_open = Dbl 240, p_close = Dbl 241, p_low = Dbl 239, p_high = Dbl 242,
           p_volume = 500000, p_pe = NaN\<rparr>) \<in> set (stock_data msft_stock)"
    by (simp add: msft_stock_def)
  from bspec [OF b2 n5] have c5: "map (\<lambda>r. c_pe (vals r))
     (filter (matches ''MSFT'' ''2023-01-05'')
        (rows (insert_stock_rows empty_table (stock_name msft_stock) (stock_data msft_stock))))
     = [None]"
    by (simp only: prod.case ex_strftime_more)
  from ex_aapl_stock v1 a1' b5 b6 ex_msft_stock v2 a2' c5 show ?thesis by (intro conjI)
qed

lemma ex_strftime_now: "strftime example_now = ''2023-01-10''"
  by (simp only: example_now_def ex_strftime_more)

text \<open>
  Claim C9 as stated fails for a \<open>trailingPE\<close> that is the boolean \<open>True\<close>, which is no
  usable P/E: it passes \<open>isinstance(pe_ratio, (int, float))\<close>, every bar carries 1.0 and
  the rows written have 1.0 in the \<open>pe\<close> column, not NULL.
\<close>

theorem pe_bool_counterexample:
  "trailingPE bool_pe_provider ''MSFT'' = Inr (PyBool True) \<and>
   map (\<lambda>(dt, price). p_pe price)
     (stock_data (projr (fst (capture_stock bool_pe_provider ''MSFT'' example_now empty_world))))
     = [Dbl 1, Dbl 1] \<and>
   map (\<lambda>r. (key r, date r, c_pe (vals r)))
     (rows (insert_stock_rows empty_table ''MSFT''
        (stock_data (projr (fst (capture_stock bool_pe_provider ''MSFT'' example_now
           empty_world))))))
     = [(''MSFT'', ''2023-01-05'', Some 1), (''MSFT'', ''2023-01-06'', Some 1)] \<and>
   Dbl 1 \<noteq> NaN"
proof -
  have c: "capture_stock bool_pe_provider ''MSFT'' example_now empty_world =
     (Inr \<lparr>stock_name = ''MSFT'',
      stock_data =
        [(\<lparr>year = 2023, month = 1, day = 5\<rparr>,
          \<lparr>p_open = Dbl 240, p_close = Dbl 241, p_low = Dbl 239, p_high = Dbl 242,
           p_volume = 500000, p_pe = Dbl 1\<rparr>),
         (\<lparr>year = 2023, month = 1, day = 6\<rparr>,
          \<lparr>p_open = Dbl 241, p_close = Dbl 244, p_low = Dbl 240, p_high = Dbl 245,
           p_volume = 600000, p_pe = Dbl 1\<rparr>)],
      tags = None\<rparr>,
      empty_world\<lparr>requests := [(''MSFT'', ''2023-01-10'', ''2023-01-10'')]\<rparr>)"
    unfolding capture_stock_def Let_def
    by (simp only: ex_strftime_now bool_pe_provider_def provider.simps)
       (simp add: bar1_def bar2_def empty_world_def)
  have v: "trailingPE bool_pe_provider ''MSFT'' = Inr (PyBool True)"
    by (simp add: bool_pe_provider_def)
  have p: "map (\<lambda>(dt, price). p_pe price)
     (stock_data (projr (fst (capture_stock bool_pe_provider ''MSFT'' example_now empty_world))))
     = [Dbl 1, Dbl 1]"
    by (simp add: c)
  have r: "map (\<lambda>r. (key r, date r, c_pe (vals r)))
     (rows (insert_stock_rows empty_table ''MSFT''
        (stock_data (projr (fst (capture_stock bool_pe_provider ''MSFT'' example_now
           empty_world))))))
     = [(''MSFT'', ''2023-01-05'', Some 1), (''MSFT'', ''2023-01-06'', Some 1)]"
    by (simp add: c insert_or_replace_def empty_table_def matches_def ex_strftime_more
          stock_vals_of_def del: One_nat_def)
  have n: "Dbl 1 \<noteq> NaN" by simp
  from v p r n show ?thesis by (intro conjI)
qed

section \<open>Parsing what \<open>strftime\<close> wrote\<close>

lemma digit_char_literals:
  "CHR ''0'' = digit_char 0" "CHR ''1'' = digit_char 1" "CHR ''2'' = digit_char 2"
  "CHR ''3'' = digit_char 3"
  by code_simp+

lemma digit_char_props:
  assumes "n < 10"
  shows "is_digit (digit_char n)" "digit_val (digit_char n) = n"
    "is_digit_in lo hi (digit_char n) \<longleftrightarrow> lo \<le> n \<and> n \<le> hi"
    "digit_char n \<noteq> CHR ''-''"
  using assms
  by (auto simp: is_digit_def digit_val_def is_digit_in_def of_char_digit_char
      simp flip: of_char_eq_iff [where 'a = nat])

lemma pad2_digits:
  assumes "n < 100"
  shows "pad2 n = [digit_char (n div 10), digit_char (n mod 10)]"
    and "n div 10 < 10" and "n mod 10 < 10" and "10 * (n div 10) + n mod 10 = n"
  using assms by (simp_all add: pad2_def)

lemma parse_year_pad4:
  assumes "y < 10000"
  shows "parse_year (pad4 y @ rest) = Some (y, rest)"
proof -
  define h l where "h = y div 100" and "l = y mod 100"
  have r: "h < 100" "l < 100" and e: "y = 100 * h + l"
    using assms by (auto simp: h_def l_def)
  note ph = pad2_digits [OF r(1)]
  note pl = pad2_digits [OF r(2)]
  have "pad4 y @ rest =
      digit_char (h div 10) # digit_char (h mod 10) # digit_char (l div 10) # digit_char (l mod 10) # rest"
    by (simp add: pad4_def ph(1) pl(1) flip: h_def l_def)
  moreover have "1000 * (h div 10) + 100 * (h mod 10) + 10 * (l div 10) + l mod 10 = y"
    using ph(4) pl(4) e by linarith
  ultimately show ?thesis
    using ph(2,3) pl(2,3) by (simp add: digit_char_props)
qed

lemma parse_month_pad2:
  assumes "1 \<le> m" "m \<le> 12"
  shows "parse_month (pad2 m @ CHR ''-'' # rest) = Some (m, rest)"
proof -
  from assms have m100: "m < 100" by simp
  note p = pad2_digits [OF m100]
  have s: "pad2 m @ CHR ''-'' # rest = digit_char (m div 10) # digit_char (m mod 10) # CHR ''-'' # rest"
    by (simp add: p(1))
  show ?thesis
  proof (cases "10 \<le> m")
    case True
    with assms have "m = 10 \<or> m = 11 \<or> m = 12" by arith
    then have d: "m div 10 = 1" "m mod 10 \<le> 2" "10 + m mod 10 = m" by auto
    show ?thesis
      unfolding s using d p(3)
      by (simp add: digit_char_props digit_char_literals)
  next
    case False
    with assms have d: "m div 10 = 0" "m mod 10 = m" "m < 10" by auto
    show ?thesis
      unfolding s using d assms
      by (simp add: digit_char_props digit_char_literals digit_char_eq_iff)
  qed
qed

lemma parse_day_pad2:
  assumes "1 \<le> n" "n \<le> 31"
  shows "parse_day (pad2 n) = Some (n, [])"
proof -
  from assms have n100: "n < 100" by simp
  note p = pad2_digits [OF n100]
  consider "30 \<le> n" | "10 \<le> n" "n < 30" | "n < 10" by linarith
  then show ?thesis
  proof cases
    case 1
    with assms have "n = 30 \<or> n = 31" by arith
    then have d: "n div 10 = 3" "n mod 10 \<le> 1" "30 + n mod 10 = n" by auto
    show ?thesis
      unfolding p(1) using d p(3)
      by (simp add: digit_char_props digit_char_literals)
  next
    case 2
    then have d: "1 \<le> n div 10" "n div 10 \<le> 2" "n div 10 \<noteq> 3" by auto
    show ?thesis
      unfolding p(1) using d p(2,3,4)
      by (simp add: digit_char_props digit_char_literals digit_char_eq_iff)
  next
    case 3
    with assms have d: "n div 10 = 0" "n mod 10 = n" by auto
    show ?thesis
      unfolding p(1) using d assms 3
      by (simp add: digit_char_props digit_char_literals digit_char_eq_iff)
  qed
qed

lemma strptime_strftime:
  assumes "valid_date d"
  shows "strptime (strftime d) = Inr d"
proof -
  from assms days_in_month_le [of "month d" "year d"]
  have v: "year d < 10000" "1 \<le> month d" "month d \<le> 12" "1 \<le> day d" "day d \<le> 31"
    by (auto simp: valid_date_def)
  have "strptime (strftime d) =
      (let d' = \<lparr>year = year d, month = month d, day = day d\<rparr>
       in if valid_date d' then Inr d' else Inl ValueError)"
    unfolding strptime_def strftime_def
    by (simp add: parse_year_pad4 [OF v(1)] parse_month_pad2 [OF v(2,3)]
          parse_day_pad2 [OF v(4,5)])
  moreover have "\<lparr>year = year d, month = month d, day = day d\<rparr> = d" by simp
  ultimately show ?thesis using assms by (simp add: Let_def)
qed

lemma canonical_strftime: "valid_date d \<Longrightarrow> canonical (strftime d)"
  by (simp add: canonical_def strptime_strftime)

lemma canonical_parse:
  assumes "canonical s" "strptime s = Inr d"
  shows "s = strftime d" "valid_date d"
  using assms strptime_valid [OF assms(2)] by (simp_all add: canonical_def)

section \<open>Rows written after the latest stored date\<close>

lemma select_max_date_Some:
  assumes "select_max_date t k = Some L"
  shows "\<forall>r \<in> set (rows t). key r = k \<longrightarrow> date r \<le> L"
    and "\<exists>r \<in> set (rows t). key r = k \<and> date r = L"
proof -
  from assms obtain d ds where m: "map date (filter (\<lambda>r. key r = k) (rows t)) = d # ds"
    and L: "L = fold max ds d"
    by (auto simp: select_max_date_def split: list.splits)
  have mx: "L = Max (set (d # ds))" unfolding L by (rule Max.set_eq_fold [symmetric])
  have s: "set (d # ds) = date ` {r \<in> set (rows t). key r = k}"
    unfolding m [symmetric] by auto
  show "\<forall>r \<in> set (rows t). key r = k \<longrightarrow> date r \<le> L"
  proof (intro ballI impI)
    fix r assume "r \<in> set (rows t)" "key r = k"
    then have "date r \<in> set (d # ds)" unfolding s by blast
    then show "date r \<le> L" unfolding mx by (intro Max_ge) simp_all
  qed
  have "Max (set (d # ds)) \<in> set (d # ds)" by (intro Max_in) simp_all
  then show "\<exists>r \<in> set (rows t). key r = k \<and> date r = L"
    unfolding mx s by auto
qed


lemma select_max_date_cong:
  "filter (\<lambda>r. key r = k) (rows t) = filter (\<lambda>r. key r = k) (rows t') \<Longrightarrow>
   select_max_date t k = select_max_date t' k"
  by (simp add: select_max_date_def)

lemma upserts_extends:
  assumes "\<forall>(k, d, v) \<in> set ops. \<forall>r \<in> set base. \<not> matches k d r"
      and "rows t = base @ ext"
  shows "\<exists>ext'. rows (upserts ops t) = base @ ext' \<and>
           (\<forall>r \<in> set ext'. r \<in> set ext \<or> (\<exists>(k, d, v) \<in> set ops. key r = k \<and> date r = d))"
  using assms
proof (induction ops arbitrary: t ext)
  case Nil
  then show ?case by simp
next
  case (Cons op ops)
  obtain k d v where op: "op = (k, d, v)" by (cases op)
  let ?new = "\<lparr>row_id = seq t + 1, key = k, date = d, vals = v\<rparr>"
  from Cons.prems(1) op have nb: "\<forall>r \<in> set base. \<not> matches k d r" by auto
  then have fb: "filter (\<lambda>r. \<not> matches k d r) base = base" by (simp add: filter_id_conv)
  have r1: "rows (insert_or_replace t k d v) = base @ (filter (\<lambda>r. \<not> matches k d r) ext @ [?new])"
    by (simp add: rows_insert_or_replace Cons.prems(2) fb)
  from Cons.prems(1) have rest: "\<forall>(k, d, v) \<in> set ops. \<forall>r \<in> set base. \<not> matches k d r" by auto
  from Cons.IH [OF rest r1] obtain ext' where
    e: "rows (upserts ops (insert_or_replace t k d v)) = base @ ext'"
    and o: "\<forall>r \<in> set ext'. r \<in> set (filter (\<lambda>r. \<not> matches k d r) ext @ [?new]) \<or>
         (\<exists>(k, d, v) \<in> set ops. key r = k \<and> date r = d)"
    by blast
  have "\<forall>r \<in> set ext'. r \<in> set ext \<or> (\<exists>(k, d, v) \<in> set (op # ops). key r = k \<and> date r = d)"
  proof
    fix r assume "r \<in> set ext'"
    with o have "r \<in> set (filter (\<lambda>r. \<not> matches k d r) ext @ [?new]) \<or>
         (\<exists>(k, d, v) \<in> set ops. key r = k \<and> date r = d)" by blast
    then show "r \<in> set ext \<or> (\<exists>(k, d, v) \<in> set (op # ops). key r = k \<and> date r = d)"
      by (auto simp: op)
  qed
  with e show ?case by (auto simp: op)
qed

lemma build_price_data_keys:
  "(dt, p) \<in> set (build_price_data hist pe acc) \<Longrightarrow> dt \<in> fst ` set hist \<or> dt \<in> fst ` set acc"
proof (induction hist arbitrary: acc)
  case Nil
  then show ?case by force
next
  case (Cons x hist)
  obtain d row where x: "x = (d, row)" by (cases x)
  from Cons.prems Cons.IH show ?case
    by (force simp: x dest!: dict_set_mem)
qed

lemma build_debt_data_keys:
  "(dt, p) \<in> set (build_debt_data hist acc) \<Longrightarrow> dt \<in> fst ` set hist \<or> dt \<in> fst ` set acc"
proof (induction hist arbitrary: acc)
  case Nil
  then show ?case by force
next
  case (Cons x hist)
  obtain d row where x: "x = (d, row)" by (cases x)
  from Cons.prems Cons.IH show ?case
    by (force simp: x dest!: dict_set_mem)
qed


lemma capture_stock_Inr:
  assumes "capture_stock prov nm start w = (Inr stk, w1)"
  shows "\<exists>hist v pe. history prov nm (strftime start) (strftime (now prov)) = Inr hist \<and>
           trailingPE prov nm = Inr v \<and> pe_ratio_of v = Inr pe \<and>
           stock_name stk = nm \<and> stock_data stk = build_price_data hist pe []"
  using assms by (auto simp: capture_stock_def Let_def split: sum.splits)

lemma capture_national_debt_Inr:
  assumes "capture_national_debt prov nm start w = (Inr nd, w1)"
  shows "\<exists>hist. history prov (proxy_symbol nm) (strftime start) (strftime (now prov)) = Inr hist \<and>
           nation_data nd = build_debt_data hist []"
  using assms
  by (auto simp: capture_national_debt_def proxy_symbol_def Let_def split: sum.splits)

lemma upserts_dated_after:
  fixes t :: "'v table"
  assumes d: "\<forall>dt \<in> fst ` set items. valid_date dt \<and> start_str \<le> strftime dt"
      and b: "\<forall>r \<in> set (rows t). key r = nm \<longrightarrow> date r < start_str"
  shows "\<exists>ext. rows (upserts (map (\<lambda>(dt, x). (nm, strftime dt, f x)) items) t) = rows t @ ext \<and>
           (\<forall>r \<in> set ext. key r = nm \<and> canonical (date r))"
proof -
  let ?ops = "map (\<lambda>(dt, x). (nm, strftime dt, f x)) items"
  have o: "\<forall>(k, d, v) \<in> set ?ops. k = nm \<and> canonical d \<and> start_str \<le> d"
    using d by (auto simp: canonical_strftime)
  have nm: "\<forall>(k, d, v) \<in> set ?ops. \<forall>r \<in> set (rows t). \<not> matches k d r"
  proof (intro ballI, clarify)
    fix k d v r
    assume op: "(k, d, v) \<in> set ?ops" and r: "r \<in> set (rows t)" and m: "matches k d r"
    from o op have "k = nm" "start_str \<le> d" by auto
    moreover from m have "key r = k" "date r = d" by (simp_all add: matches_def)
    ultimately have "key r = nm" "start_str \<le> date r" by simp_all
    with b r show False by auto
  qed
  from upserts_extends [OF nm, of t "[]"] obtain ext where
    e: "rows (upserts ?ops t) = rows t @ ext"
    and n: "\<forall>r \<in> set ext. r \<in> set [] \<or> (\<exists>(k, d, v) \<in> set ?ops. key r = k \<and> date r = d)"
    by auto
  have "\<forall>r \<in> set ext. key r = nm \<and> canonical (date r)"
  proof
    fix r assume "r \<in> set ext"
    with n have "\<exists>(k, d, v) \<in> set ?ops. key r = k \<and> date r = d" by simp
    then obtain op where m: "op \<in> set ?ops" and c: "case op of (k, d, v) \<Rightarrow> key r = k \<and> date r = d"
      by (rule bexE)
    obtain k d' v where op: "op = (k, d', v)" by (cases op)
    from o m op have "k = nm \<and> canonical d' \<and> start_str \<le> d'" by blast
    with c op show "key r = nm \<and> canonical (date r)" by simp
  qed
  with e show ?thesis by blast
qed

lemma insert_captured_stock:
  assumes rs: "respects_start prov"
      and c: "capture_stock prov nm start w = (Inr stk, w1)"
      and b: "\<forall>r \<in> set (rows t). key r = nm \<longrightarrow> date r < strftime start"
  shows "\<exists>ext. rows (insert_stock_rows t (stock_name stk) (stock_data stk)) = rows t @ ext \<and>
           (\<forall>r \<in> set ext. key r = nm \<and> canonical (date r))"
proof -
  from capture_stock_Inr [OF c] obtain hist pe where
    h: "history prov nm (strftime start) (strftime (now prov)) = Inr hist"
    and n: "stock_name stk = nm"
    and sd: "stock_data stk = build_price_data hist pe []"
    by blast
  have d: "\<forall>dt \<in> fst ` set (stock_data stk). valid_date dt \<and> strftime start \<le> strftime dt"
  proof
    fix dt assume "dt \<in> fst ` set (stock_data stk)"
    then obtain p where "(dt, p) \<in> set (build_price_data hist pe [])"
      unfolding sd by auto
    from build_price_data_keys [OF this] obtain row where "(dt, row) \<in> set hist" by auto
    with rs h show "valid_date dt \<and> strftime start \<le> strftime dt"
      unfolding respects_start_def by blast
  qed
  from upserts_dated_after [OF d b, of stock_vals_of] show ?thesis
    by (simp add: insert_stock_rows_upserts n)
qed

lemma insert_captured_debt:
  assumes rs: "respects_start prov"
      and c: "capture_national_debt prov nm start w = (Inr nd, w1)"
      and b: "\<forall>r \<in> set (rows t). key r = nm \<longrightarrow> date r < strftime start"
  shows "\<exists>ext. rows (insert_debt_rows t nm (nation_data nd)) = rows t @ ext \<and>
           (\<forall>r \<in> set ext. key r = nm \<and> canonical (date r))"
proof -
  from capture_national_debt_Inr [OF c] obtain hist where
    h: "history prov (proxy_symbol nm) (strftime start) (strftime (now prov)) = Inr hist"
    and sd: "nation_data nd = build_debt_data hist []"
    by blast
  have d: "\<forall>dt \<in> fst ` set (nation_data nd). valid_date dt \<and> strftime start \<le> strftime dt"
  proof
    fix dt assume "dt \<in> fst ` set (nation_data nd)"
    then obtain p where "(dt, p) \<in> set (build_debt_data hist [])"
      unfolding sd by auto
    from build_debt_data_keys [OF this] obtain row where "(dt, row) \<in> set hist" by auto
    with rs h show "valid_date dt \<and> strftime start \<le> strftime dt"
      unfolding respects_start_def by blast
  qed
  from upserts_dated_after [OF d b, of bind_real] show ?thesis
    by (simp add: insert_debt_rows_upserts)
qed

section \<open>One pass of the incremental append\<close>

lemma latest_before_next:
  assumes cd: "canonical_dates t"
      and m: "select_max_date t k = Some L"
      and p: "strptime L = Inr d"
      and n: "plus_one_day d = Inr start"
  shows "\<forall>r \<in> set (rows t). key r = k \<longrightarrow> date r < strftime start"
    and "L = strftime d"
proof -
  from select_max_date_Some(2) [OF m] cd have "canonical L"
    unfolding canonical_dates_def by auto
  from canonical_parse [OF this p] have L: "L = strftime d" and v: "valid_date d" .
  from next_day_valid [OF v n] have "valid_date start" "date_less d start" .
  with v have lt: "L < strftime start" unfolding L by (simp add: strftime_less_iff)
  show "L = strftime d" by (rule L)
  show "\<forall>r \<in> set (rows t). key r = k \<longrightarrow> date r < strftime start"
    using select_max_date_Some(1) [OF m] lt by auto
qed

lemma update_missing_stock_None:
  assumes "update_missing_stock prov e w = (None, w')"
      and "select_max_date (stocks w) (name e) = Some L" "L \<noteq> []"
  shows "\<exists>d start stk w1. strptime L = Inr d \<and> plus_one_day d = Inr start \<and>
           capture_stock prov (name e) start w = (Inr stk, w1) \<and>
           w' = w1\<lparr>stocks := insert_stock_rows (stocks w1) (stock_name stk) (stock_data stk)\<rparr>"
  using assms
  by (auto simp: update_missing_stock_def Let_def split: sum.splits prod.splits)

lemma update_missing_stock_Some:
  assumes "update_missing_stock prov e w = (Some err, w')"
  shows "w' = w \<or> (\<exists>start. capture_stock prov (name e) start w = (Inl err, w'))"
  using assms
  by (auto simp: update_missing_stock_def Let_def split: sum.splits prod.splits option.splits if_splits)

lemma update_missing_stock_skip:
  assumes "update_missing_stock prov e w = (None, w')"
      and "select_max_date (stocks w) (name e) = None \<or> select_max_date (stocks w) (name e) = Some []"
  shows "w' = w"
  using assms by (auto simp: update_missing_stock_def Let_def)


lemma update_missing_stock_step:
  assumes rs: "respects_start prov"
      and cd: "canonical_dates (stocks w)"
      and u: "update_missing_stock prov e w = (res, w')"
  shows "appended (name e) (stocks w) (stocks w') \<and> national_debt w' = national_debt w \<and>
         toml_file w' = toml_file w \<and> prefix (requests w) (requests w')"
proof (cases res)
  case (Some err)
  with u have "w' = w \<or> (\<exists>start. capture_stock prov (name e) start w = (Inl err, w'))"
    by (simp add: update_missing_stock_Some)
  then show ?thesis
  proof
    assume "w' = w"
    then show ?thesis by (simp add: appended_def)
  next
    assume "\<exists>start. capture_stock prov (name e) start w = (Inl err, w')"
    then obtain start where c: "capture_stock prov (name e) start w = (Inl err, w')" ..
    from capture_stock_frame [OF c] show ?thesis
      by (simp add: appended_def same_tables_def)
  qed
next
  case None
  show ?thesis
  proof (cases "select_max_date (stocks w) (name e) = None \<or>
                select_max_date (stocks w) (name e) = Some []")
    case True
    from update_missing_stock_skip [OF u [unfolded None] True] show ?thesis
      by (simp add: appended_def)
  next
    case False
    then obtain L where m: "select_max_date (stocks w) (name e) = Some L" and ne: "L \<noteq> []"
      by (cases "select_max_date (stocks w) (name e)") auto
    from update_missing_stock_None [OF u [unfolded None] m ne] obtain d start stk w1 where
      p: "strptime L = Inr d" and n: "plus_one_day d = Inr start"
      and c: "capture_stock prov (name e) start w = (Inr stk, w1)"
      and w': "w' = w1\<lparr>stocks := insert_stock_rows (stocks w1) (stock_name stk) (stock_data stk)\<rparr>"
      by blast
    note f = capture_stock_frame [OF c]
    from f(1) have st: "stocks w1 = stocks w" by (simp add: same_tables_def)
    from latest_before_next(1) [OF cd m p n]
    have b: "\<forall>r \<in> set (rows (stocks w1)). key r = name e \<longrightarrow> date r < strftime start"
      by (simp add: st)
    from insert_captured_stock [OF rs c b]
    have "appended (name e) (stocks w) (stocks w')"
      by (simp add: appended_def w' st)
    with f show ?thesis by (simp add: w' same_tables_def)
  qed
qed

lemma update_missing_stock_request:
  assumes u: "update_missing_stock prov e w = (None, w')"
      and m: "select_max_date (stocks w) (name e) = Some L" and ne: "L \<noteq> []"
      and p: "strptime L = Inr d"
  shows "(name e, strftime (next_day d), strftime (now prov)) \<in> set (requests w')"
proof -
  from update_missing_stock_None [OF u m ne] p obtain start stk w1 where
    n: "plus_one_day d = Inr start"
    and c: "capture_stock prov (name e) start w = (Inr stk, w1)"
    and w': "w' = w1\<lparr>stocks := insert_stock_rows (stocks w1) (stock_name stk) (stock_data stk)\<rparr>"
    by auto
  from n have "start = next_day d" by (auto simp: plus_one_day_def split: if_splits)
  with capture_stock_frame(2) [OF c] show ?thesis by (simp add: w')
qed

lemma update_missing_debt_None:
  assumes "update_missing_debt prov e w = (None, w')"
      and "select_max_date (national_debt w) (name e) = Some L" "L \<noteq> []"
  shows "\<exists>d start stk w1. strptime L = Inr d \<and> plus_one_day d = Inr start \<and>
           capture_national_debt prov (name e) start w = (Inr stk, w1) \<and>
           w' = w1\<lparr>national_debt := insert_debt_rows (national_debt w1) (name e) (nation_data stk)\<rparr>"
  using assms
  by (auto simp: update_missing_debt_def Let_def split: sum.splits prod.splits)

lemma update_missing_debt_Some:
  assumes "update_missing_debt prov e w = (Some err, w')"
  shows "w' = w \<or> (\<exists>start. capture_national_debt prov (name e) start w = (Inl err, w'))"
  using assms
  by (auto simp: update_missing_debt_def Let_def split: sum.splits prod.splits option.splits if_splits)

lemma update_missing_debt_skip:
  assumes "update_missing_debt prov e w = (None, w')"
      and "select_max_date (national_debt w) (name e) = None \<or> select_max_date (national_debt w) (name e) = Some []"
  shows "w' = w"
  using assms by (auto simp: update_missing_debt_def Let_def)


lemma update_missing_debt_step:
  assumes rs: "respects_start prov"
      and cd: "canonical_dates (national_debt w)"
      and u: "update_missing_debt prov e w = (res, w')"
  shows "appended (name e) (national_debt w) (national_debt w') \<and> stocks w' = stocks w \<and>
         toml_file w' = toml_file w \<and> prefix (requests w) (requests w')"
proof (cases res)
  case (Some err)
  with u have "w' = w \<or> (\<exists>start. capture_national_debt prov (name e) start w = (Inl err, w'))"
    by (simp add: update_missing_debt_Some)
  then show ?thesis
  proof
    assume "w' = w"
    then show ?thesis by (simp add: appended_def)
  next
    assume "\<exists>start. capture_national_debt prov (name e) start w = (Inl err, w')"
    then obtain start where c: "capture_national_debt prov (name e) start w = (Inl err, w')" ..
    from capture_national_debt_frame [OF c] show ?thesis
      by (simp add: appended_def same_tables_def)
  qed
next
  case None
  show ?thesis
  proof (cases "select_max_date (national_debt w) (name e) = None \<or>
                select_max_date (national_debt w) (name e) = Some []")
    case True
    from update_missing_debt_skip [OF u [unfolded None] True] show ?thesis
      by (simp add: appended_def)
  next
    case False
    then obtain L where m: "select_max_date (national_debt w) (name e) = Some L" and ne: "L \<noteq> []"
      by (cases "select_max_date (national_debt w) (name e)") auto
    from update_missing_debt_None [OF u [unfolded None] m ne] obtain d start stk w1 where
      p: "strptime L = Inr d" and n: "plus_one_day d = Inr start"
      and c: "capture_national_debt prov (name e) start w = (Inr stk, w1)"
      and w': "w' = w1\<lparr>national_debt := insert_debt_rows (national_debt w1) (name e) (nation_data stk)\<rparr>"
      by blast
    note f = capture_national_debt_frame [OF c]
    from f(1) have st: "national_debt w1 = national_debt w" by (simp add: same_tables_def)
    from latest_before_next(1) [OF cd m p n]
    have b: "\<forall>r \<in> set (rows (national_debt w1)). key r = name e \<longrightarrow> date r < strftime start"
      by (simp add: st)
    from insert_captured_debt [OF rs c b]
    have "appended (name e) (national_debt w) (national_debt w')"
      by (simp add: appended_def w' st)
    with f show ?thesis by (simp add: w' same_tables_def)
  qed
qed

lemma update_missing_debt_request:
  assumes u: "update_missing_debt prov e w = (None, w')"
      and m: "select_max_date (national_debt w) (name e) = Some L" and ne: "L \<noteq> []"
      and p: "strptime L = Inr d"
  shows "(proxy_symbol (name e), strftime (next_day d), strftime (now prov)) \<in> set (requests w')"
proof -
  from update_missing_debt_None [OF u m ne] p obtain start stk w1 where
    n: "plus_one_day d = Inr start"
    and c: "capture_national_debt prov (name e) start w = (Inr stk, w1)"
    and w': "w' = w1\<lparr>national_debt := insert_debt_rows (national_debt w1) (name e) (nation_data stk)\<rparr>"
    by auto
  from n have "start = next_day d" by (auto simp: plus_one_day_def split: if_splits)
  with capture_national_debt_frame(2) [OF c] show ?thesis by (simp add: w')
qed



lemma appended_prefix: "appended nm t t' \<Longrightarrow> prefix (rows t) (rows t')"
  by (auto simp: appended_def)

lemma appended_canonical: "appended nm t t' \<Longrightarrow> canonical_dates t \<Longrightarrow> canonical_dates t'"
  by (auto simp: appended_def canonical_dates_def)

lemma appended_other_key:
  assumes "appended nm t t'" "k \<noteq> nm"
  shows "select_max_date t' k = select_max_date t k"
proof -
  from assms(1) obtain ext where e: "rows t' = rows t @ ext" and n: "\<forall>r \<in> set ext. key r = nm"
    by (auto simp: appended_def)
  from n assms(2) have "filter (\<lambda>r. key r = k) ext = []" by (auto simp: filter_empty_conv)
  then have "filter (\<lambda>r. key r = k) (rows t') = filter (\<lambda>r. key r = k) (rows t)"
    by (simp add: e)
  then show ?thesis by (rule select_max_date_cong)
qed

lemma run_frame_refl: "run_frame w w"
  by (simp add: run_frame_def)

lemma run_frame_trans: "run_frame a b \<Longrightarrow> run_frame b c \<Longrightarrow> run_frame a c"
  by (auto simp: run_frame_def)

lemma stock_step_frame:
  assumes "respects_start prov" "canonical_store w" "update_missing_stock prov e w = (r, w')"
  shows "canonical_store w' \<and> (run_frame w w' \<and> national_debt w' = national_debt w)"
  using update_missing_stock_step [OF assms(1) _ assms(3)] assms(2)
  by (auto simp: canonical_store_def run_frame_def appended_prefix appended_canonical)

lemma debt_step_frame:
  assumes "respects_start prov" "canonical_store w" "update_missing_debt prov e w = (r, w')"
  shows "canonical_store w' \<and> (run_frame w w' \<and> stocks w' = stocks w)"
  using update_missing_debt_step [OF assms(1) _ assms(3)] assms(2)
  by (auto simp: canonical_store_def run_frame_def appended_prefix appended_canonical)

lemma for_entries_request:
  assumes inv: "\<And>e' w r w'. I w \<Longrightarrow> body e' w = (r, w') \<Longrightarrow>
                  I w' \<and> prefix (requests w) (requests w')"
      and keep: "\<And>e' w r w'. name e' \<noteq> k \<Longrightarrow> I w \<Longrightarrow> Q w \<Longrightarrow> body e' w = (r, w') \<Longrightarrow> Q w'"
      and hit: "\<And>e' w w'. name e' = k \<Longrightarrow> I w \<Longrightarrow> Q w \<Longrightarrow> body e' w = (None, w') \<Longrightarrow>
                  req \<in> set (requests w')"
      and "e \<in> set es" "name e = k" "I w" "Q w" "for_entries body es w = (None, w')"
  shows "req \<in> set (requests w')"
  using assms(4,6,7,8)
proof (induction es arbitrary: w)
  case Nil
  then show ?case by simp
next
  case (Cons e1 es)
  obtain r1 w1 where b: "body e1 w = (r1, w1)" by (cases "body e1 w")
  from Cons.prems(4) b have r1: "r1 = None" and f: "for_entries body es w1 = (None, w')"
    by (auto split: option.splits)
  from inv [OF Cons.prems(2) b] have i1: "I w1" by simp
  show ?case
  proof (cases "name e1 = k")
    case True
    from hit [OF True Cons.prems(2,3) b [unfolded r1]] have m: "req \<in> set (requests w1)" .
    have st: "\<And>e' w r w'. e' \<in> set es \<Longrightarrow> I w \<Longrightarrow> body e' w = (r, w') \<Longrightarrow>
                  I w' \<and> prefix (requests w) (requests w')"
      by (rule inv)
    have "I w' \<and> prefix (requests w1) (requests w')"
      by (rule for_entries_invariant [where I = I and R = "\<lambda>a b. prefix (requests a) (requests b)",
            OF st _ _ i1 f]) auto
    with m show ?thesis using set_mono_prefix by blast
  next
    case False
    with Cons.prems(1) assms(5) have e: "e \<in> set es" by auto
    from keep [OF False Cons.prems(2,3) b] have "Q w1" .
    from Cons.IH [OF e i1 this f] show ?thesis .
  qed
qed

section \<open>The two loops of a run\<close>

lemma stock_section_frame:
  assumes rs: "respects_start prov" and cs: "canonical_store w"
      and f: "for_section (update_missing_stock prov) sect w = (r, w')"
  shows "canonical_store w' \<and> (run_frame w w' \<and> national_debt w' = national_debt w)"
proof (rule for_section_invariant
        [where I = canonical_store and R = "\<lambda>a b. run_frame a b \<and> national_debt b = national_debt a",
         OF _ _ _ cs f])
  fix e w r w'
  assume "canonical_store w" "update_missing_stock prov e w = (r, w')"
  from stock_step_frame [OF rs this]
  show "canonical_store w' \<and> (run_frame w w' \<and> national_debt w' = national_debt w)" .
next
  fix w :: world
  show "run_frame w w \<and> national_debt w = national_debt w" by (simp add: run_frame_refl)
next
  fix a b c :: world
  assume "run_frame a b \<and> national_debt b = national_debt a" "run_frame b c \<and> national_debt c = national_debt b"
  then show "run_frame a c \<and> national_debt c = national_debt a" by (auto intro: run_frame_trans)
qed

lemma debt_section_frame:
  assumes rs: "respects_start prov" and cs: "canonical_store w"
      and f: "for_section (update_missing_debt prov) sect w = (r, w')"
  shows "canonical_store w' \<and> (run_frame w w' \<and> stocks w' = stocks w)"
proof (rule for_section_invariant
        [where I = canonical_store and R = "\<lambda>a b. run_frame a b \<and> stocks b = stocks a",
         OF _ _ _ cs f])
  fix e w r w'
  assume "canonical_store w" "update_missing_debt prov e w = (r, w')"
  from debt_step_frame [OF rs this]
  show "canonical_store w' \<and> (run_frame w w' \<and> stocks w' = stocks w)" .
next
  fix w :: world
  show "run_frame w w \<and> stocks w = stocks w" by (simp add: run_frame_refl)
next
  fix a b c :: world
  assume "run_frame a b \<and> stocks b = stocks a" "run_frame b c \<and> stocks c = stocks b"
  then show "run_frame a c \<and> stocks c = stocks a" by (auto intro: run_frame_trans)
qed

lemma update_missing_data_conn_sections:
  assumes "update_missing_data_conn prov w = (res, w')"
  obtains r1 w1 where
    "for_section (update_missing_stock prov) (cfg_stocks (toml_file w)) w = (r1, w1)"
    "r1 \<noteq> None \<Longrightarrow> res = r1 \<and> w' = w1"
    "r1 = None \<Longrightarrow>
       for_section (update_missing_debt prov) (cfg_national_debt (toml_file w)) w1 = (res, w')"
proof -
  obtain r1 w1 where a:
    "for_section (update_missing_stock prov) (cfg_stocks (toml_file w)) w = (r1, w1)"
    by (cases "for_section (update_missing_stock prov) (cfg_stocks (toml_file w)) w")
  show ?thesis
    using assms a by (intro that [of r1 w1]) (auto simp: update_missing_data_conn_def Let_def)
qed

lemma update_missing_data_conn_frame:
  assumes rs: "respects_start prov" and cs: "canonical_store w"
      and u: "update_missing_data_conn prov w = (res, c)"
  shows "canonical_store c \<and> run_frame w c"
proof -
  from update_missing_data_conn_sections [OF u] obtain r1 w1 where
    a: "for_section (update_missing_stock prov) (cfg_stocks (toml_file w)) w = (r1, w1)"
    and e: "r1 \<noteq> None \<Longrightarrow> res = r1 \<and> c = w1"
    and b: "r1 = None \<Longrightarrow>
       for_section (update_missing_debt prov) (cfg_national_debt (toml_file w)) w1 = (res, c)"
    by blast
  from stock_section_frame [OF rs cs a] have s1: "canonical_store w1" "run_frame w w1" by simp_all
  show ?thesis
  proof (cases r1)
    case (Some err)
    with e s1 show ?thesis by simp
  next
    case None
    from debt_section_frame [OF rs s1(1) b [OF None]]
    have "canonical_store c" "run_frame w1 c" by simp_all
    with s1 run_frame_trans show ?thesis by blast
  qed
qed

section \<open>A run that finds nothing new\<close>

lemma update_missing_stock_settled:
  assumes rs: "respects_start prov"
      and cd: "canonical_dates (stocks w)"
      and had: "\<forall>start_str end_str bars. history prov (name e) start_str end_str = Inr bars \<longrightarrow>
                 (\<forall>(dt, row) \<in> set bars.
                    \<exists>r \<in> set (rows (stocks w)). key r = name e \<and> date r = strftime dt)"
      and u: "update_missing_stock prov e w = (res, w')"
  shows "same_tables w w'"
proof (cases res)
  case (Some err)
  with u have "w' = w \<or> (\<exists>start. capture_stock prov (name e) start w = (Inl err, w'))"
    by (simp add: update_missing_stock_Some)
  then show ?thesis
  proof
    assume "w' = w"
    then show ?thesis by (simp add: same_tables_refl)
  next
    assume "\<exists>start. capture_stock prov (name e) start w = (Inl err, w')"
    then obtain start where c: "capture_stock prov (name e) start w = (Inl err, w')" ..
    from capture_stock_frame(1) [OF c] show ?thesis .
  qed
next
  case None
  show ?thesis
  proof (cases "select_max_date (stocks w) (name e) = None \<or>
                select_max_date (stocks w) (name e) = Some []")
    case True
    from update_missing_stock_skip [OF u [unfolded None] True] show ?thesis
      by (simp add: same_tables_refl)
  next
    case False
    then obtain L where m: "select_max_date (stocks w) (name e) = Some L" and ne: "L \<noteq> []"
      by (cases "select_max_date (stocks w) (name e)") auto
    from update_missing_stock_None [OF u [unfolded None] m ne] obtain d start stk w1 where
      p: "strptime L = Inr d" and n: "plus_one_day d = Inr start"
      and c: "capture_stock prov (name e) start w = (Inr stk, w1)"
      and w': "w' = w1\<lparr>stocks := insert_stock_rows (stocks w1) (stock_name stk) (stock_data stk)\<rparr>"
      by blast
    note f = capture_stock_frame [OF c]
    from latest_before_next(1) [OF cd m p n]
    have b: "\<forall>r \<in> set (rows (stocks w)). key r = name e \<longrightarrow> date r < strftime start" .
    from capture_stock_Inr [OF c] obtain hist pe where
      h: "history prov (name e) (strftime start) (strftime (now prov)) = Inr hist"
      and sd: "stock_data stk = build_price_data hist pe []"
      by blast
    have "hist = []"
    proof (rule ccontr)
      assume "hist \<noteq> []"
      then obtain dt row where mem: "(dt, row) \<in> set hist" by (cases hist) auto
      from rs h mem have ge: "strftime start \<le> strftime dt"
        unfolding respects_start_def by blast
      from had h mem obtain r where "r \<in> set (rows (stocks w))" "key r = name e"
        "date r = strftime dt" by blast
      with b have "strftime dt < strftime start" by auto
      with ge show False by simp
    qed
    with sd have "stock_data stk = []" by simp
    with f(1) show ?thesis by (simp add: w' same_tables_def)
  qed
qed

lemma update_missing_debt_settled:
  assumes rs: "respects_start prov"
      and cd: "canonical_dates (national_debt w)"
      and had: "\<forall>start_str end_str bars.
                 history prov (proxy_symbol (name e)) start_str end_str = Inr bars \<longrightarrow>
                 (\<forall>(dt, row) \<in> set bars.
                    \<exists>r \<in> set (rows (national_debt w)). key r = name e \<and> date r = strftime dt)"
      and u: "update_missing_debt prov e w = (res, w')"
  shows "same_tables w w'"
proof (cases res)
  case (Some err)
  with u have "w' = w \<or> (\<exists>start. capture_national_debt prov (name e) start w = (Inl err, w'))"
    by (simp add: update_missing_debt_Some)
  then show ?thesis
  proof
    assume "w' = w"
    then show ?thesis by (simp add: same_tables_refl)
  next
    assume "\<exists>start. capture_national_debt prov (name e) start w = (Inl err, w')"
    then obtain start where c: "capture_national_debt prov (name e) start w = (Inl err, w')" ..
    from capture_national_debt_frame(1) [OF c] show ?thesis .
  qed
next
  case None
  show ?thesis
  proof (cases "select_max_date (national_debt w) (name e) = None \<or>
                select_max_date (national_debt w) (name e) = Some []")
    case True
    from update_missing_debt_skip [OF u [unfolded None] True] show ?thesis
      by (simp add: same_tables_refl)
  next
    case False
    then obtain L where m: "select_max_date (national_debt w) (name e) = Some L" and ne: "L \<noteq> []"
      by (cases "select_max_date (national_debt w) (name e)") auto
    from update_missing_debt_None [OF u [unfolded None] m ne] obtain d start nd w1 where
      p: "strptime L = Inr d" and n: "plus_one_day d = Inr start"
      and c: "capture_national_debt prov (name e) start w = (Inr nd, w1)"
      and w': "w' = w1\<lparr>national_debt :=
                  insert_debt_rows (national_debt w1) (name e) (nation_data nd)\<rparr>"
      by blast
    note f = capture_national_debt_frame [OF c]
    from latest_before_next(1) [OF cd m p n]
    have b: "\<forall>r \<in> set (rows (national_debt w)). key r = name e \<longrightarrow> date r < strftime start" .
    from capture_national_debt_Inr [OF c] obtain hist where
      h: "history prov (proxy_symbol (name e)) (strftime start) (strftime (now prov)) = Inr hist"
      and sd: "nation_data nd = build_debt_data hist []"
      by blast
    have "hist = []"
    proof (rule ccontr)
      assume "hist \<noteq> []"
      then obtain dt row where mem: "(dt, row) \<in> set hist" by (cases hist) auto
      from rs h mem have ge: "strftime start \<le> strftime dt"
        unfolding respects_start_def by blast
      from had h mem obtain r where "r \<in> set (rows (national_debt w))" "key r = name e"
        "date r = strftime dt" by blast
      with b have "strftime dt < strftime start" by auto
      with ge show False by simp
    qed
    with sd have "nation_data nd = []" by simp
    with f(1) show ?thesis by (simp add: w' same_tables_def)
  qed
qed

lemma update_missing_data_conn_settled:
  assumes rs: "respects_start prov" and cs: "canonical_store s"
      and nd: "holds_all_data prov s"
      and u: "update_missing_data_conn prov s = (res, c)"
  shows "same_tables s c"
proof -
  let ?I = "\<lambda>x. same_tables s x"
  from update_missing_data_conn_sections [OF u] obtain r1 w1 where
    a: "for_section (update_missing_stock prov) (cfg_stocks (toml_file s)) s = (r1, w1)"
    and e: "r1 \<noteq> None \<Longrightarrow> res = r1 \<and> c = w1"
    and b: "r1 = None \<Longrightarrow>
       for_section (update_missing_debt prov) (cfg_national_debt (toml_file s)) w1 = (res, c)"
    by blast
  from a have a': "for_entries (update_missing_stock prov) (tracked_stocks (toml_file s)) s = (r1, w1)"
    by (simp add: for_section_def tracked_stocks_def split: option.splits)
  have s1: "?I w1 \<and> True"
  proof (rule for_entries_invariant [where I = ?I and R = "\<lambda>a b. True", OF _ _ _ _ a'])
    fix e w r w'
    assume m: "e \<in> set (tracked_stocks (toml_file s))" and i: "same_tables s w"
      and st: "update_missing_stock prov e w = (r, w')"
    from i have eq: "stocks w = stocks s" by (simp add: same_tables_def)
    from cs have cd: "canonical_dates (stocks w)" by (simp add: eq canonical_store_def)
    from nd m have had: "\<forall>start_str end_str bars.
        history prov (name e) start_str end_str = Inr bars \<longrightarrow>
        (\<forall>(dt, row) \<in> set bars.
           \<exists>r \<in> set (rows (stocks w)). key r = name e \<and> date r = strftime dt)"
      unfolding holds_all_data_def eq by blast
    from update_missing_stock_settled [OF rs cd had st] i
    show "same_tables s w' \<and> True" by (simp add: same_tables_def)
  qed (simp_all add: same_tables_refl)
  show ?thesis
  proof (cases r1)
    case (Some err)
    with e s1 show ?thesis by simp
  next
    case None
    from b [OF None] s1
    have b': "for_entries (update_missing_debt prov) (tracked_nations (toml_file s)) w1 = (res, c)"
      by (simp add: for_section_def tracked_nations_def same_tables_def split: option.splits)
    have "?I c \<and> True"
    proof (rule for_entries_invariant [where I = ?I and R = "\<lambda>a b. True", OF _ _ _ _ b'])
      fix e w r w'
      assume m: "e \<in> set (tracked_nations (toml_file s))" and i: "same_tables s w"
        and st: "update_missing_debt prov e w = (r, w')"
      from i have eq: "national_debt w = national_debt s" by (simp add: same_tables_def)
      from cs have cd: "canonical_dates (national_debt w)" by (simp add: eq canonical_store_def)
      from nd m have had: "\<forall>start_str end_str bars.
          history prov (proxy_symbol (name e)) start_str end_str = Inr bars \<longrightarrow>
          (\<forall>(dt, row) \<in> set bars.
             \<exists>r \<in> set (rows (national_debt w)). key r = name e \<and> date r = strftime dt)"
        unfolding holds_all_data_def eq by blast
      from update_missing_debt_settled [OF rs cd had st] i
      show "same_tables s w' \<and> True" by (simp add: same_tables_def)
    qed (use s1 in \<open>simp_all add: same_tables_refl\<close>)
    then show ?thesis by simp
  qed
qed

lemma close_without_commit_tables:
  "stocks (close_without_commit w c) = stocks w"
  "national_debt (close_without_commit w c) = national_debt w"
  "toml_file (close_without_commit w c) = toml_file c"
  "requests (close_without_commit w c) = requests c"
  by (simp_all add: close_without_commit_def)

lemma close_without_commit_same:
  "stocks c = stocks w \<Longrightarrow> national_debt c = national_debt w \<Longrightarrow> close_without_commit w c = c"
  by (simp add: close_without_commit_def)

text \<open>
  Claim C6. Two incremental appends in succession, with a provider that keeps its
  contract and has nothing beyond what the store holds when the second run starts.
  The first run closes its connection without a commit, so the second run starts from
  the store as it was before the first, \<open>close_without_commit w0 c1\<close>; the statement
  also covers the store with the rows written through the first run's connection,
  \<open>c1\<close>, as it would be had they been committed. In both cases the second run writes
  nothing, not even inside its connection: after the second run both tables and the
  configuration are what they were after the first.
\<close>

theorem incremental_append_idempotent:
  assumes "respects_start prov" and "canonical_store w0"
      and "update_missing_data_conn prov w0 = (r1, c1)"
      and "s = close_without_commit w0 c1 \<or> s = c1"
      and "holds_all_data prov s"
      and "update_missing_data_conn prov s = (r2, c2)"
  shows "update_missing_data prov w0 = (r1, close_without_commit w0 c1) \<and>
         stocks c2 = stocks s \<and> national_debt c2 = national_debt s \<and>
         toml_file c2 = toml_file s \<and>
         update_missing_data prov s = (r2, c2)"
proof -
  from update_missing_data_conn_frame [OF assms(1,2,3)]
  have c1: "canonical_store c1" by simp
  from assms(2) have "canonical_store (close_without_commit w0 c1)"
    by (simp add: canonical_store_def close_without_commit_tables)
  with c1 assms(4) have cs: "canonical_store s" by auto
  from update_missing_data_conn_settled [OF assms(1) cs assms(5,6)]
  have t: "stocks c2 = stocks s" "national_debt c2 = national_debt s" "toml_file c2 = toml_file s"
    by (simp_all add: same_tables_def)
  have "update_missing_data prov s = (r2, c2)"
    by (simp add: update_missing_data_def assms(6) close_without_commit_same t)
  moreover have "update_missing_data prov w0 = (r1, close_without_commit w0 c1)"
    by (simp add: update_missing_data_def assms(3))
  ultimately show ?thesis using t by simp
qed


section \<open>Two runs on the example store\<close>

lemma ex_strftime_early:
  "strftime \<lparr>year = 2023, month = 1, day = 1\<rparr> = ''2023-01-01''"
  "strftime \<lparr>year = 2023, month = 1, day = 2\<rparr> = ''2023-01-02''"
  by code_simp+

lemma ex_valid_dates:
  "valid_date \<lparr>year = 2023, month = 1, day = 1\<rparr>"
  "valid_date \<lparr>year = 2023, month = 1, day = 2\<rparr>"
  "valid_date \<lparr>year = 2023, month = 1, day = 3\<rparr>"
  "valid_date \<lparr>year = 2023, month = 1, day = 4\<rparr>"
  "valid_date \<lparr>year = 2023, month = 1, day = 5\<rparr>"
  "valid_date \<lparr>year = 2023, month = 1, day = 6\<rparr>"
  by (simp_all add: valid_date_def days_in_month_def)

lemma ex_canonical:
  "canonical ''2023-01-01''" "canonical ''2023-01-02''" "canonical ''2023-01-03''"
  "canonical ''2023-01-04''" "canonical ''2023-01-05''" "canonical ''2023-01-06''"
  using ex_valid_dates [THEN canonical_strftime]
  by (simp_all only: ex_strftime_early ex_strftime ex_strftime_more)

lemma ex_stock_rows:
  "map (\<lambda>r. (key r, date r)) (rows example_stocks) =
     [(''AAPL'', ''2023-01-04''), (''AAPL'', ''2023-01-01''), (''MSFT'', ''2023-01-03''),
      (''AAPL'', ''2023-01-02'')]"
  by (simp add: example_stocks_def insert_or_replace_def empty_table_def matches_def)

lemma ex_debt_rows:
  "map (\<lambda>r. (key r, date r)) (rows example_debt) =
     [(''US'', ''2023-01-01''), (''US'', ''2023-01-02''), (''US'', ''2023-01-04'')]"
  by (simp add: example_debt_def insert_or_replace_def empty_table_def matches_def)

lemma canonical_dates_map:
  "canonical_dates t \<longleftrightarrow> list_all canonical (map snd (map (\<lambda>r. (key r, date r)) (rows t)))"
  by (simp add: canonical_dates_def list_all_iff)

lemma ex_canonical_store: "canonical_store example_world"
  unfolding canonical_store_def canonical_dates_map
  by (simp only: ex_world_fields ex_stock_rows ex_debt_rows list.map snd_conv list.pred_inject
        ex_canonical simp_thms)

lemma stored_in_table:
  "(k, d) \<in> set (map (\<lambda>r. (key r, date r)) (rows t)) \<Longrightarrow>
   \<exists>r \<in> set (rows t). key r = k \<and> date r = d"
  by auto

lemma ex_append_respects: "respects_start append_provider"
  unfolding respects_start_def
proof (intro allI impI)
  fix symbol start_str end_str bars
  assume h: "history append_provider symbol start_str end_str = Inr bars"
  show "\<forall>(dt, row) \<in> set bars. valid_date dt \<and> start_str \<le> strftime dt"
  proof (cases "symbol = ''AAPL'' \<and> start_str = ''2023-01-05''")
    case True
    with h have b: "bars = [(\<lparr>year = 2023, month = 1, day = 5\<rparr>, bar1),
                   (\<lparr>year = 2023, month = 1, day = 6\<rparr>, bar2)]"
      by (simp add: append_provider_def)
    have "''2023-01-05'' \<le> ''2023-01-06''" by simp
    with True show ?thesis
      by (simp add: b ex_valid_dates ex_strftime_more del: One_nat_def)
  next
    case False
    with h have "bars = []" by (simp add: append_provider_def)
    then show ?thesis by simp
  qed
qed

lemma ex_stored_respects: "respects_start stored_provider"
  unfolding respects_start_def
proof (intro allI impI)
  fix symbol start_str end_str bars
  assume h: "history stored_provider symbol start_str end_str = Inr bars"
  show "\<forall>(dt, row) \<in> set bars. valid_date dt \<and> start_str \<le> strftime dt"
  proof (cases "symbol = ''AAPL''")
    case True
    with h have b: "bars = filter (\<lambda>(dt, row). start_str \<le> strftime dt)
                     [(\<lparr>year = 2023, month = 1, day = 1\<rparr>, bar1),
                      (\<lparr>year = 2023, month = 1, day = 2\<rparr>, bar2),
                      (\<lparr>year = 2023, month = 1, day = 4\<rparr>, bar1)]"
      by (simp add: stored_provider_def)
    show ?thesis
      unfolding b using ex_valid_dates by (auto simp del: One_nat_def)
  next
    case False
    with h have "bars = []" by (simp add: stored_provider_def)
    then show ?thesis by simp
  qed
qed

lemma ex_config_tracked:
  "tracked_stocks example_config =
     [\<lparr>name = ''AAPL'', start_date = ''2023-01-01'', end_date = None\<rparr>]"
  "tracked_nations example_config =
     [\<lparr>name = ''US'', start_date = ''2023-01-01'', end_date = None\<rparr>]"
  "proxy_symbol ''US'' = ''^TNX''"
  by (simp_all add: tracked_stocks_def tracked_nations_def example_config_def proxy_symbol_def
        TREASURY_SYMBOLS_def)

lemma ex_append_holds: "holds_all_data append_provider world_after_append"
proof -
  have tf: "toml_file world_after_append = example_config"
    by (simp add: world_after_append_def ex_world_fields)
  have a: "\<forall>start_str end_str bars.
        history append_provider ''AAPL'' start_str end_str = Inr bars \<longrightarrow>
        (\<forall>(dt, row) \<in> set bars.
           \<exists>r \<in> set (rows (stocks world_after_append)). key r = ''AAPL'' \<and> date r = strftime dt)"
  proof (intro allI impI)
    fix start_str end_str bars
    assume h: "history append_provider ''AAPL'' start_str end_str = Inr bars"
    have m5: "\<exists>r \<in> set (rows (stocks world_after_append)). key r = ''AAPL'' \<and> date r = ''2023-01-05''"
      by (rule stored_in_table) (simp only: ex_after_append_rows, simp)
    have m6: "\<exists>r \<in> set (rows (stocks world_after_append)). key r = ''AAPL'' \<and> date r = ''2023-01-06''"
      by (rule stored_in_table) (simp only: ex_after_append_rows, simp)
    show "\<forall>(dt, row) \<in> set bars.
           \<exists>r \<in> set (rows (stocks world_after_append)). key r = ''AAPL'' \<and> date r = strftime dt"
    proof (cases "start_str = ''2023-01-05''")
      case True
      with h have b: "bars = [(\<lparr>year = 2023, month = 1, day = 5\<rparr>, bar1),
                   (\<lparr>year = 2023, month = 1, day = 6\<rparr>, bar2)]"
        by (simp add: append_provider_def)
      show ?thesis unfolding b using m5 m6
        by (simp only: list.set ball_simps prod.case ex_strftime_more simp_thms)
    next
      case False
      with h have "bars = []" by (simp add: append_provider_def)
      then show ?thesis by simp
    qed
  qed
  have b: "\<forall>start_str end_str bars.
        history append_provider ''^TNX'' start_str end_str = Inr bars \<longrightarrow>
        (\<forall>(dt, row) \<in> set bars.
           \<exists>r \<in> set (rows (national_debt world_after_append)). key r = ''US'' \<and> date r = strftime dt)"
    by (simp add: append_provider_def)
  from a b show ?thesis
    unfolding holds_all_data_def tf
    by (simp only: ex_config_tracked list.set ball_simps entry.simps simp_thms)
qed

lemma ex_stored_holds:
  assumes "toml_file s = example_config" "stocks s = example_stocks"
      and "national_debt s = example_debt"
  shows "holds_all_data stored_provider s"
proof -
  have a: "\<forall>start_str end_str bars.
        history stored_provider ''AAPL'' start_str end_str = Inr bars \<longrightarrow>
        (\<forall>(dt, row) \<in> set bars.
           \<exists>r \<in> set (rows example_stocks). key r = ''AAPL'' \<and> date r = strftime dt)"
  proof (intro allI impI)
    fix start_str end_str bars
    assume h: "history stored_provider ''AAPL'' start_str end_str = Inr bars"
    have m1: "\<exists>r \<in> set (rows example_stocks). key r = ''AAPL'' \<and> date r = ''2023-01-01''"
      by (rule stored_in_table) (simp only: ex_stock_rows, simp)
    have m2: "\<exists>r \<in> set (rows example_stocks). key r = ''AAPL'' \<and> date r = ''2023-01-02''"
      by (rule stored_in_table) (simp only: ex_stock_rows, simp)
    have m4: "\<exists>r \<in> set (rows example_stocks). key r = ''AAPL'' \<and> date r = ''2023-01-04''"
      by (rule stored_in_table) (simp only: ex_stock_rows, simp)
    have all: "\<forall>(dt, row) \<in> set [(\<lparr>year = 2023, month = 1, day = 1\<rparr>, bar1),
                      (\<lparr>year = 2023, month = 1, day = 2\<rparr>, bar2),
                      (\<lparr>year = 2023, month = 1, day = 4\<rparr>, bar1)].
           \<exists>r \<in> set (rows example_stocks). key r = ''AAPL'' \<and> date r = strftime dt"
      using m1 m2 m4
      by (simp only: list.set ball_simps prod.case ex_strftime_more ex_strftime_early simp_thms)
    from h have b: "bars = filter (\<lambda>(dt, row). start_str \<le> strftime dt)
                     [(\<lparr>year = 2023, month = 1, day = 1\<rparr>, bar1),
                      (\<lparr>year = 2023, month = 1, day = 2\<rparr>, bar2),
                      (\<lparr>year = 2023, month = 1, day = 4\<rparr>, bar1)]"
      by (simp add: stored_provider_def)
    show "\<forall>(dt, row) \<in> set bars.
           \<exists>r \<in> set (rows example_stocks). key r = ''AAPL'' \<and> date r = strftime dt"
    proof
      fix x assume "x \<in> set bars"
      then have "x \<in> set [(\<lparr>year = 2023, month = 1, day = 1\<rparr>, bar1),
                      (\<lparr>year = 2023, month = 1, day = 2\<rparr>, bar2),
                      (\<lparr>year = 2023, month = 1, day = 4\<rparr>, bar1)]"
        unfolding b by (rule filter_is_subset [THEN subsetD])
      with all show "case x of (dt, row) \<Rightarrow>
           \<exists>r \<in> set (rows example_stocks). key r = ''AAPL'' \<and> date r = strftime dt"
        by (rule bspec)
    qed
  qed
  have b: "\<forall>start_str end_str bars.
        history stored_provider ''^TNX'' start_str end_str = Inr bars \<longrightarrow>
        (\<forall>(dt, row) \<in> set bars.
           \<exists>r \<in> set (rows example_debt). key r = ''US'' \<and> date r = strftime dt)"
    by (simp add: stored_provider_def)
  from a b show ?thesis
    unfolding holds_all_data_def assms
    by (simp only: ex_config_tracked list.set ball_simps entry.simps simp_thms)
qed


text \<open>
  The two runs on the example store: with \<open>stored_provider\<close>, starting the second run
  from the store that the first run left, and with \<open>append_provider\<close>, starting it from
  the rows of the first run's connection.
\<close>

theorem incremental_append_idempotent_witness:
  "respects_start stored_provider \<and> canonical_store example_world \<and>
   holds_all_data stored_provider (snd (update_missing_data stored_provider example_world)) \<and>
   stocks (snd (update_missing_data stored_provider example_world)) = example_stocks \<and>
   national_debt (snd (update_missing_data stored_provider example_world)) = example_debt \<and>
   stocks (snd (update_missing_data_conn stored_provider
                  (snd (update_missing_data stored_provider example_world)))) = example_stocks \<and>
   national_debt (snd (update_missing_data_conn stored_provider
                  (snd (update_missing_data stored_provider example_world)))) = example_debt \<and>
   stocks (snd (update_missing_data stored_provider
                  (snd (update_missing_data stored_provider example_world)))) = example_stocks \<and>
   national_debt (snd (update_missing_data stored_provider
                  (snd (update_missing_data stored_provider example_world)))) = example_debt \<and>
   respects_start append_provider \<and>
   update_missing_data_conn append_provider example_world = (None, world_after_append) \<and>
   holds_all_data append_provider world_after_append \<and>
   stocks (snd (update_missing_data_conn append_provider world_after_append)) =
     stocks world_after_append \<and>
   national_debt (snd (update_missing_data_conn append_provider world_after_append)) =
     national_debt world_after_append \<and>
   map (\<lambda>r. (key r, date r))
     (rows (stocks (snd (update_missing_data_conn append_provider world_after_append)))) =
     [(''AAPL'', ''2023-01-04''), (''AAPL'', ''2023-01-01''), (''MSFT'', ''2023-01-03''),
      (''AAPL'', ''2023-01-02''), (''AAPL'', ''2023-01-05''), (''AAPL'', ''2023-01-06'')]"
proof -
  let ?X = "update_missing_data_conn stored_provider example_world"
  let ?s = "close_without_commit example_world (snd ?X)"
  let ?Y = "update_missing_data_conn stored_provider ?s"
  have x: "?X = (fst ?X, snd ?X)" by simp
  have y: "?Y = (fst ?Y, snd ?Y)" by simp
  from update_missing_data_conn_frame [OF ex_stored_respects ex_canonical_store x]
  have tf: "toml_file (snd ?X) = example_config"
    by (simp add: run_frame_def ex_world_fields)
  have st: "toml_file ?s = example_config" "stocks ?s = example_stocks"
    "national_debt ?s = example_debt"
    by (simp_all add: close_without_commit_tables tf ex_world_fields)
  have hs: "holds_all_data stored_provider ?s" by (rule ex_stored_holds [OF st])
  have d: "?s = close_without_commit example_world (snd ?X) \<or> ?s = snd ?X" by simp
  note t = incremental_append_idempotent [OF ex_stored_respects ex_canonical_store x d hs y]
  from t have r1: "update_missing_data stored_provider example_world = (fst ?X, ?s)"
    by (rule conjunct1)
  then have s1: "snd (update_missing_data stored_provider example_world) = ?s" by simp
  from t have a: "stocks (snd ?Y) = stocks ?s"
    by (rule conjunct1 [OF conjunct2])
  from t have b: "national_debt (snd ?Y) = national_debt ?s"
    by (rule conjunct1 [OF conjunct2 [OF conjunct2]])
  from t have r2: "update_missing_data stored_provider ?s = (fst ?Y, snd ?Y)"
    by (rule conjunct2 [OF conjunct2 [OF conjunct2 [OF conjunct2]]])
  then have s2: "snd (update_missing_data stored_provider ?s) = snd ?Y" by simp
  have c1: "holds_all_data stored_provider (snd (update_missing_data stored_provider example_world))"
    by (simp only: s1 hs)
  have c2: "stocks (snd (update_missing_data stored_provider example_world)) = example_stocks"
    "national_debt (snd (update_missing_data stored_provider example_world)) = example_debt"
    by (simp_all only: s1 st)
  have c3: "stocks (snd (update_missing_data_conn stored_provider
                  (snd (update_missing_data stored_provider example_world)))) = example_stocks"
    "national_debt (snd (update_missing_data_conn stored_provider
                  (snd (update_missing_data stored_provider example_world)))) = example_debt"
    by (simp_all only: s1 a b st)
  have c4: "stocks (snd (update_missing_data stored_provider
                  (snd (update_missing_data stored_provider example_world)))) = example_stocks"
    "national_debt (snd (update_missing_data stored_provider
                  (snd (update_missing_data stored_provider example_world)))) = example_debt"
    by (simp_all only: s1 s2 a b st)
  let ?Z = "update_missing_data_conn append_provider world_after_append"
  have z: "?Z = (fst ?Z, snd ?Z)" by simp
  have d': "world_after_append = close_without_commit example_world world_after_append \<or>
            world_after_append = world_after_append" by simp
  note t' = incremental_append_idempotent
    [OF ex_append_respects ex_canonical_store ex_run1 d' ex_append_holds z]
  from t' have a': "stocks (snd ?Z) = stocks world_after_append"
    by (rule conjunct1 [OF conjunct2])
  from t' have b': "national_debt (snd ?Z) = national_debt world_after_append"
    by (rule conjunct1 [OF conjunct2 [OF conjunct2]])
  have c5: "map (\<lambda>r. (key r, date r)) (rows (stocks (snd ?Z))) =
     [(''AAPL'', ''2023-01-04''), (''AAPL'', ''2023-01-01''), (''MSFT'', ''2023-01-03''),
      (''AAPL'', ''2023-01-02''), (''AAPL'', ''2023-01-05''), (''AAPL'', ''2023-01-06'')]"
    by (simp only: a' ex_after_append_rows)
  from ex_stored_respects ex_canonical_store c1 c2 c3 c4 ex_append_respects ex_run1
    ex_append_holds a' b' c5
  show ?thesis by (intro conjI)
qed

section \<open>What an incremental append requests and what it leaves alone\<close>

lemma stock_section_request:
  assumes rs: "respects_start prov" and cs: "canonical_store w"
      and f: "for_entries (update_missing_stock prov) es w = (None, w')"
      and e: "e \<in> set es"
      and m: "select_max_date (stocks w) (name e) = Some L" and ne: "L \<noteq> []"
      and p: "strptime L = Inr d"
  shows "(name e, strftime (next_day d), strftime (now prov)) \<in> set (requests w')"
proof (rule for_entries_request
    [where I = canonical_store and k = "name e"
       and Q = "\<lambda>x. select_max_date (stocks x) (name e) = Some L"
       and body = "update_missing_stock prov", OF _ _ _ e refl cs m f])
  fix e' w r w'
  assume "canonical_store w" "update_missing_stock prov e' w = (r, w')"
  from stock_step_frame [OF rs this]
  show "canonical_store w' \<and> prefix (requests w) (requests w')"
    by (simp add: run_frame_def)
next
  fix e' w r w'
  assume n: "name e' \<noteq> name e" and c: "canonical_store w"
    and q: "select_max_date (stocks w) (name e) = Some L"
    and u: "update_missing_stock prov e' w = (r, w')"
  from c have "canonical_dates (stocks w)" by (simp add: canonical_store_def)
  from update_missing_stock_step [OF rs this u]
  have "appended (name e') (stocks w) (stocks w')" by simp
  from appended_other_key [OF this, of "name e"] n q
  show "select_max_date (stocks w') (name e) = Some L" by simp
next
  fix e' w w'
  assume n: "name e' = name e" and q: "select_max_date (stocks w) (name e) = Some L"
    and u: "update_missing_stock prov e' w = (None, w')"
  from update_missing_stock_request [OF u q [folded n] ne p]
  show "(name e, strftime (next_day d), strftime (now prov)) \<in> set (requests w')"
    by (simp add: n)
qed

lemma debt_section_request:
  assumes rs: "respects_start prov" and cs: "canonical_store w"
      and f: "for_entries (update_missing_debt prov) es w = (None, w')"
      and e: "e \<in> set es"
      and m: "select_max_date (national_debt w) (name e) = Some L" and ne: "L \<noteq> []"
      and p: "strptime L = Inr d"
  shows "(proxy_symbol (name e), strftime (next_day d), strftime (now prov)) \<in> set (requests w')"
proof (rule for_entries_request
    [where I = canonical_store and k = "name e"
       and Q = "\<lambda>x. select_max_date (national_debt x) (name e) = Some L"
       and body = "update_missing_debt prov", OF _ _ _ e refl cs m f])
  fix e' w r w'
  assume "canonical_store w" "update_missing_debt prov e' w = (r, w')"
  from debt_step_frame [OF rs this]
  show "canonical_store w' \<and> prefix (requests w) (requests w')"
    by (simp add: run_frame_def)
next
  fix e' w r w'
  assume n: "name e' \<noteq> name e" and c: "canonical_store w"
    and q: "select_max_date (national_debt w) (name e) = Some L"
    and u: "update_missing_debt prov e' w = (r, w')"
  from c have "canonical_dates (national_debt w)" by (simp add: canonical_store_def)
  from update_missing_debt_step [OF rs this u]
  have "appended (name e') (national_debt w) (national_debt w')" by simp
  from appended_other_key [OF this, of "name e"] n q
  show "select_max_date (national_debt w') (name e) = Some L" by simp
next
  fix e' w w'
  assume n: "name e' = name e" and q: "select_max_date (national_debt w) (name e) = Some L"
    and u: "update_missing_debt prov e' w = (None, w')"
  from update_missing_debt_request [OF u q [folded n] ne p]
  show "(proxy_symbol (name e), strftime (next_day d), strftime (now prov)) \<in> set (requests w')"
    by (simp add: n)
qed


lemma strptime_empty: "strptime [] = Inr d \<Longrightarrow> False"
  by (simp add: strptime_def)

lemma for_section_tracked_stocks:
  "for_section body (cfg_stocks cfg) w = for_entries body (tracked_stocks cfg) w"
  by (simp add: for_section_def tracked_stocks_def split: option.splits)

lemma for_section_tracked_nations:
  "for_section body (cfg_national_debt cfg) w = for_entries body (tracked_nations cfg) w"
  by (simp add: for_section_def tracked_nations_def split: option.splits)

text \<open>
  Claim C4. An incremental append, with a provider that keeps its contract, on a store
  whose dates are canonical. Through its connection the run only appends: the rows that
  each table had before the run are still there afterwards, unchanged and in their
  places, so in particular every row dated before the latest date of its key. A run that
  completes has sent, for every tracked key with a latest stored date, the request that
  starts on the day after that date. The connection is closed without a commit, so the
  run as a whole leaves both tables of the store as they were.
\<close>

theorem incremental_append_frame:
  assumes "respects_start prov" and "canonical_store w"
      and "update_missing_data_conn prov w = (res, c)"
  shows "prefix (rows (stocks w)) (rows (stocks c)) \<and>
         prefix (rows (national_debt w)) (rows (national_debt c)) \<and>
         (res = None \<longrightarrow>
            (\<forall>e \<in> set (tracked_stocks (toml_file w)). \<forall>L d.
               select_max_date (stocks w) (name e) = Some L \<and> strptime L = Inr d \<longrightarrow>
               (name e, strftime (next_day d), strftime (now prov)) \<in> set (requests c)) \<and>
            (\<forall>e \<in> set (tracked_nations (toml_file w)). \<forall>L d.
               select_max_date (national_debt w) (name e) = Some L \<and> strptime L = Inr d \<longrightarrow>
               (proxy_symbol (name e), strftime (next_day d), strftime (now prov))
                 \<in> set (requests c))) \<and>
         update_missing_data prov w = (res, close_without_commit w c)"
proof -
  note rs = assms(1) and cs = assms(2) and u = assms(3)
  from update_missing_data_conn_frame [OF rs cs u] have rf: "run_frame w c" by simp
  then have p1: "prefix (rows (stocks w)) (rows (stocks c))"
    and p2: "prefix (rows (national_debt w)) (rows (national_debt c))"
    by (simp_all add: run_frame_def)
  have p4: "update_missing_data prov w = (res, close_without_commit w c)"
    by (simp add: update_missing_data_def u)
  have p3: "res = None \<longrightarrow>
            (\<forall>e \<in> set (tracked_stocks (toml_file w)). \<forall>L d.
               select_max_date (stocks w) (name e) = Some L \<and> strptime L = Inr d \<longrightarrow>
               (name e, strftime (next_day d), strftime (now prov)) \<in> set (requests c)) \<and>
            (\<forall>e \<in> set (tracked_nations (toml_file w)). \<forall>L d.
               select_max_date (national_debt w) (name e) = Some L \<and> strptime L = Inr d \<longrightarrow>
               (proxy_symbol (name e), strftime (next_day d), strftime (now prov))
                 \<in> set (requests c))"
  proof
    assume none: "res = None"
    from update_missing_data_conn_sections [OF u] obtain r1 w1 where
      a: "for_section (update_missing_stock prov) (cfg_stocks (toml_file w)) w = (r1, w1)"
      and e: "r1 \<noteq> None \<Longrightarrow> res = r1 \<and> c = w1"
      and b: "r1 = None \<Longrightarrow>
         for_section (update_missing_debt prov) (cfg_national_debt (toml_file w)) w1 = (res, c)"
      by blast
    from e none have r1: "r1 = None" by (cases r1) auto
    note b' = b [OF r1, unfolded none]
    from stock_section_frame [OF rs cs a] have cs1: "canonical_store w1"
      and nd1: "national_debt w1 = national_debt w" by simp_all
    from debt_section_frame [OF rs cs1 b'] have pr: "prefix (requests w1) (requests c)"
      by (simp add: run_frame_def)
    from a r1 have fa: "for_entries (update_missing_stock prov) (tracked_stocks (toml_file w)) w
        = (None, w1)"
      by (simp add: for_section_tracked_stocks)
    from b' have fb: "for_entries (update_missing_debt prov) (tracked_nations (toml_file w)) w1
        = (None, c)"
      by (simp add: for_section_tracked_nations)
    have s: "\<forall>e \<in> set (tracked_stocks (toml_file w)). \<forall>L d.
               select_max_date (stocks w) (name e) = Some L \<and> strptime L = Inr d \<longrightarrow>
               (name e, strftime (next_day d), strftime (now prov)) \<in> set (requests c)"
    proof (intro ballI allI impI, elim conjE)
      fix e L d
      assume m: "e \<in> set (tracked_stocks (toml_file w))"
        and l: "select_max_date (stocks w) (name e) = Some L" and p: "strptime L = Inr d"
      from p have ne: "L \<noteq> []" using strptime_empty by blast
      from stock_section_request [OF rs cs fa m l ne p]
      have "(name e, strftime (next_day d), strftime (now prov)) \<in> set (requests w1)" .
      with pr show "(name e, strftime (next_day d), strftime (now prov)) \<in> set (requests c)"
        using set_mono_prefix by blast
    qed
    have n: "\<forall>e \<in> set (tracked_nations (toml_file w)). \<forall>L d.
               select_max_date (national_debt w) (name e) = Some L \<and> strptime L = Inr d \<longrightarrow>
               (proxy_symbol (name e), strftime (next_day d), strftime (now prov))
                 \<in> set (requests c)"
    proof (intro ballI allI impI, elim conjE)
      fix e L d
      assume m: "e \<in> set (tracked_nations (toml_file w))"
        and l: "select_max_date (national_debt w) (name e) = Some L" and p: "strptime L = Inr d"
      from p have ne: "L \<noteq> []" using strptime_empty by blast
      from l have l': "select_max_date (national_debt w1) (name e) = Some L" by (simp add: nd1)
      from debt_section_request [OF rs cs1 fb m l' ne p]
      show "(proxy_symbol (name e), strftime (next_day d), strftime (now prov))
              \<in> set (requests c)" .
    qed
    from s n show "(\<forall>e \<in> set (tracked_stocks (toml_file w)). \<forall>L d.
               select_max_date (stocks w) (name e) = Some L \<and> strptime L = Inr d \<longrightarrow>
               (name e, strftime (next_day d), strftime (now prov)) \<in> set (requests c)) \<and>
            (\<forall>e \<in> set (tracked_nations (toml_file w)). \<forall>L d.
               select_max_date (national_debt w) (name e) = Some L \<and> strptime L = Inr d \<longrightarrow>
               (proxy_symbol (name e), strftime (next_day d), strftime (now prov))
                 \<in> set (requests c))" by (rule conjI)
  qed
  from p1 p2 p3 p4 show ?thesis by (intro conjI)
qed


lemma ex_next_day_0104:
  "next_day \<lparr>year = 2023, month = 1, day = 4\<rparr> = \<lparr>year = 2023, month = 1, day = 5\<rparr>"
  by (simp add: next_day_def days_in_month_def is_leap_def)

lemma ex_now_append: "strftime (now append_provider) = ''2023-01-10''"
  by (simp only: append_provider_def provider.simps ex_strftime_now)

text \<open>The example store and \<open>append_provider\<close>: two rows are appended for AAPL.\<close>

theorem incremental_append_frame_witness:
  "respects_start append_provider \<and> canonical_store example_world \<and>
   update_missing_data_conn append_provider example_world = (None, world_after_append) \<and>
   select_max_date (stocks example_world) ''AAPL'' = Some ''2023-01-04'' \<and>
   select_max_date (national_debt example_world) ''US'' = Some ''2023-01-04'' \<and>
   prefix (rows (stocks example_world)) (rows (stocks world_after_append)) \<and>
   prefix (rows (national_debt example_world)) (rows (national_debt world_after_append)) \<and>
   (''AAPL'', ''2023-01-05'', ''2023-01-10'') \<in> set (requests world_after_append) \<and>
   (''^TNX'', ''2023-01-05'', ''2023-01-10'') \<in> set (requests world_after_append) \<and>
   update_missing_data append_provider example_world =
     (None, close_without_commit example_world world_after_append) \<and>
   map (\<lambda>r. (key r, date r)) (rows (stocks world_after_append)) =
     [(''AAPL'', ''2023-01-04''), (''AAPL'', ''2023-01-01''), (''MSFT'', ''2023-01-03''),
      (''AAPL'', ''2023-01-02''), (''AAPL'', ''2023-01-05''), (''AAPL'', ''2023-01-06'')]"
proof -
  let ?aapl = "\<lparr>name = ''AAPL'', start_date = ''2023-01-01'', end_date = None\<rparr>"
  let ?us = "\<lparr>name = ''US'', start_date = ''2023-01-01'', end_date = None\<rparr>"
  let ?d4 = "\<lparr>year = 2023, month = 1, day = 4\<rparr>"
  note t = incremental_append_frame [OF ex_append_respects ex_canonical_store ex_run1]
  from t have p1: "prefix (rows (stocks example_world)) (rows (stocks world_after_append))"
    by (rule conjunct1)
  from t have p2: "prefix (rows (national_debt example_world))
      (rows (national_debt world_after_append))"
    by (rule conjunct1 [OF conjunct2])
  from t have p4: "update_missing_data append_provider example_world =
     (None, close_without_commit example_world world_after_append)"
    by (rule conjunct2 [OF conjunct2 [OF conjunct2]])
  note q = mp [OF conjunct1 [OF conjunct2 [OF conjunct2 [OF t]]] refl]
  have l1: "select_max_date (stocks example_world) ''AAPL'' = Some ''2023-01-04''"
    by (simp only: ex_world_fields ex_latest)
  have l2: "select_max_date (national_debt example_world) ''US'' = Some ''2023-01-04''"
    by (simp only: ex_world_fields ex_latest)
  have m1: "?aapl \<in> set (tracked_stocks (toml_file example_world))"
    by (simp only: ex_world_fields ex_config_tracked list.set insertI1)
  have m2: "?us \<in> set (tracked_nations (toml_file example_world))"
    by (simp only: ex_world_fields ex_config_tracked list.set insertI1)
  have h1: "select_max_date (stocks example_world) (name ?aapl) = Some ''2023-01-04'' \<and>
            strptime ''2023-01-04'' = Inr ?d4"
    by (simp only: entry.simps l1 ex_strptime_0104 simp_thms)
  have h2: "select_max_date (national_debt example_world) (name ?us) = Some ''2023-01-04'' \<and>
            strptime ''2023-01-04'' = Inr ?d4"
    by (simp only: entry.simps l2 ex_strptime_0104 simp_thms)
  from mp [OF spec [OF spec [OF bspec [OF conjunct1 [OF q] m1]]] h1]
  have r1: "(''AAPL'', ''2023-01-05'', ''2023-01-10'') \<in> set (requests world_after_append)"
    by (simp only: entry.simps ex_next_day_0104 ex_strftime_more ex_now_append)
  from mp [OF spec [OF spec [OF bspec [OF conjunct2 [OF q] m2]]] h2]
  have r2: "(''^TNX'', ''2023-01-05'', ''2023-01-10'') \<in> set (requests world_after_append)"
    by (simp only: entry.simps ex_next_day_0104 ex_strftime_more ex_now_append ex_config_tracked)
  from ex_append_respects ex_canonical_store ex_run1 l1 l2 p1 p2 r1 r2 p4 ex_after_append_rows
  show ?thesis by (intro conjI)
qed

section \<open>One pass of the destructive refresh\<close>













section \<open>A loop over entries with distinct keys\<close>




section \<open>The two loops of a destructive refresh\<close>









section \<open>A destructive refresh of the example store\<close>











end
